theory Spec2Isabelle
  imports Main
begin

section \<open>Values shared by the three programs\<close>

text \<open>
  The repository holds three Python scripts: \<^verbatim>\<open>Expense_Tracker_CLI.py\<close>,
  \<^verbatim>\<open>Habit_Tracker.py\<close> and \<^verbatim>\<open>To-Do_List_Application.py\<close>. Each keeps a list in
  memory and rewrites one JSON file after a change. Exceptions that the modelled code can
  raise are values of \<open>py_error\<close>.
\<close>

datatype py_error = IndexError | KeyError | OverflowError

text \<open>
  A Python \<^verbatim>\<open>str\<close> is the list of its Unicode code points. \<open>lit\<close> writes a
  literal from its ASCII characters.
\<close>

type_synonym str = "nat list"

definition lit :: "string \<Rightarrow> str" where
  "lit s = map of_char s"

text \<open>
  \<^verbatim>\<open>str.strip()\<close> without an argument removes leading and trailing white space, the
  code points for which \<^verbatim>\<open>str.isspace\<close> holds.
\<close>

definition isspace :: "nat \<Rightarrow> bool" where
  "isspace c \<longleftrightarrow>
     (9 \<le> c \<and> c \<le> 13) \<or> (28 \<le> c \<and> c \<le> 32) \<or> c = 133 \<or> c = 160 \<or> c = 5760 \<or>
     (8192 \<le> c \<and> c \<le> 8202) \<or> c = 8232 \<or> c = 8233 \<or> c = 8239 \<or> c = 8287 \<or>
     c = 12288"

definition strip :: "str \<Rightarrow> str" where
  "strip s = rev (dropWhile isspace (rev (dropWhile isspace s)))"

subsection \<open>Calendar dates\<close>

text \<open>
  A \<^verbatim>\<open>datetime.date\<close> has a year, a month and a day. Python builds only dates that
  satisfy \<open>valid_date\<close>, with years from 1 to 9999. The JSON files hold a date as the
  text that \<^verbatim>\<open>isoformat\<close> writes. For the creation date of a record, which the code
  only ever reads back as a date, the model keeps the date that the text denotes.
\<close>

record date =
  year :: int
  month :: int
  day :: int

definition is_leap :: "int \<Rightarrow> bool" where
  "is_leap y \<longleftrightarrow> y mod 4 = 0 \<and> (y mod 100 \<noteq> 0 \<or> y mod 400 = 0)"

definition days_in_month :: "int \<Rightarrow> int \<Rightarrow> int" where
  "days_in_month y m =
     (if m = 2 then (if is_leap y then 29 else 28)
      else if m = 4 \<or> m = 6 \<or> m = 9 \<or> m = 11 then 30 else 31)"

definition valid_date :: "date \<Rightarrow> bool" where
  "valid_date d \<longleftrightarrow>
     1 \<le> year d \<and> year d \<le> 9999 \<and> 1 \<le> month d \<and> month d \<le> 12 \<and>
     1 \<le> day d \<and> day d \<le> days_in_month (year d) (month d)"

text \<open>
  \<^verbatim>\<open>date.isoformat()\<close> writes \<^verbatim>\<open>"%04d-%02d-%02d" % (year, month, day)\<close>: for a date
  of the date type, four digits of the year, two of the month and two of the day, with
  hyphens (code point 45) between them. \<open>digit n\<close> is the code point of the decimal digit
  \<open>n\<close>; the digit \<^verbatim>\<open>0\<close> is code point 48.
\<close>

definition digit :: "int \<Rightarrow> nat" where
  "digit n = 48 + nat n"

definition isoformat :: "date \<Rightarrow> str" where
  "isoformat d =
     [digit (year d div 1000), digit (year d div 100 mod 10),
      digit (year d div 10 mod 10), digit (year d mod 10), 45,
      digit (month d div 10), digit (month d mod 10), 45,
      digit (day d div 10), digit (day d mod 10)]"

text \<open>
  \<^verbatim>\<open>date.toordinal()\<close>: the number of the day, 0001-01-01 being day 1, computed as
  the date type does from the days before the year and the days before the month.
\<close>

definition days_before_year :: "int \<Rightarrow> int" where
  "days_before_year y = (y - 1) * 365 + (y - 1) div 4 - (y - 1) div 100 + (y - 1) div 400"

definition days_before_month :: "int \<Rightarrow> int \<Rightarrow> int" where
  "days_before_month y m =
     [0, 31, 59, 90, 120, 151, 181, 212, 243, 273, 304, 334] ! nat (m - 1)
       + (if 2 < m \<and> is_leap y then 1 else 0)"

definition toordinal :: "date \<Rightarrow> int" where
  "toordinal d = days_before_year (year d) + days_before_month (year d) (month d) + day d"

text \<open>
  \<^verbatim>\<open>d - timedelta(days=1)\<close>: the calendar day before \<open>d\<close>. The date type has no day
  before 0001-01-01 and raises \<^verbatim>\<open>OverflowError\<close> there.
\<close>

definition minus_one_day :: "date \<Rightarrow> py_error + date" where
  "minus_one_day d =
     (if 1 < day d then Inr (d\<lparr>day := day d - 1\<rparr>)
      else if 1 < month d then
        Inr (d\<lparr>month := month d - 1, day := days_in_month (year d) (month d - 1)\<rparr>)
      else if 1 < year d then Inr (d\<lparr>year := year d - 1, month := 12, day := 31\<rparr>)
      else Inl OverflowError)"

subsection \<open>The persisted file\<close>

text \<open>
  Each program owns one JSON file. \<open>content\<close> is the collection that the file decodes
  to; \<open>writes\<close> counts how often the file has been opened for writing and rewritten
  whole.
\<close>

record 'r disk =
  content :: "'r list"
  writes :: nat

section \<open>To-Do\_List\_Application.py\<close>

text \<open>A task is a plain string; the list is addressed by position.\<close>

definition save_tasks :: "str list \<Rightarrow> str disk \<Rightarrow> str disk" where
  "save_tasks tasks d = \<lparr>content = tasks, writes = Suc (writes d)\<rparr>"

text \<open>
  \<open>add_task\<close> reads one line (\<open>typed\<close>) and strips it. The first component of the
  result says what was printed: \<open>None\<close> for "No new task added, please try again.",
  \<open>Some t\<close> for "t has been added to your To-Do List.".
\<close>

definition add_task :: "str \<Rightarrow> str list \<Rightarrow> str disk \<Rightarrow> str option \<times> str list \<times> str disk" where
  "add_task typed tasks d =
     (let new_task = strip typed in
      if new_task = [] then (None, tasks, d)
      else (let tasks' = tasks @ [new_task] in (Some new_task, tasks', save_tasks tasks' d)))"

text \<open>
  \<^verbatim>\<open>list.pop(index)\<close> first converts the index to the machine integer that counts
  list positions, a signed 64-bit \<^verbatim>\<open>Py_ssize_t\<close> on the usual 64-bit build; an index
  that does not fit raises \<^verbatim>\<open>OverflowError\<close>. Then a negative index counts from the
  end, and an index outside the list after that adjustment raises \<^verbatim>\<open>IndexError\<close>.
  Either error leaves the list as it was. A list never has more than \<open>2 ^ 63 - 1\<close>
  elements.
\<close>

definition pop :: "'a list \<Rightarrow> int \<Rightarrow> py_error + ('a \<times> 'a list)" where
  "pop xs index =
     (if index < - (2 ^ 63) \<or> 2 ^ 63 \<le> index then Inl OverflowError
      else
        (let n = int (length xs);
             j = (if index < 0 then index + n else index)
         in if j < 0 \<or> n \<le> j then Inl IndexError
            else Inr (xs ! nat j, take (nat j) xs @ drop (Suc (nat j)) xs)))"

definition remove_task :: "str list \<Rightarrow> int \<Rightarrow> str disk \<Rightarrow> (py_error + str) \<times> str list \<times> str disk" where
  "remove_task tasks index d =
     (case pop tasks index of
        Inl e \<Rightarrow> (Inl e, tasks, d)
      | Inr (removed, tasks') \<Rightarrow> (Inr removed, tasks', save_tasks tasks' d))"

definition clear_list :: "str list \<Rightarrow> str disk \<Rightarrow> str list \<times> str disk" where
  "clear_list tasks d = ([], save_tasks [] d)"

text \<open>
  The "remove" branch of \<open>main\<close>, the only caller of \<open>remove_task\<close>. \<open>selected_choice\<close>
  is the outcome of \<^verbatim>\<open>int(remove_choice)\<close>, \<open>None\<close> when it raises \<^verbatim>\<open>ValueError\<close>.
\<close>

datatype remove_reply =
  List_is_empty | Enter_a_valid_number | Invalid_number | Has_been_removed str | Raised py_error

definition main_remove :: "int option \<Rightarrow> str list \<Rightarrow> str disk \<Rightarrow> remove_reply \<times> str list \<times> str disk" where
  "main_remove selected_choice tasks d =
     (if tasks = [] then (List_is_empty, tasks, d)
      else case selected_choice of
        None \<Rightarrow> (Enter_a_valid_number, tasks, d)
      | Some c \<Rightarrow>
          (let index = c - 1 in
           if 0 \<le> index \<and> index < int (length tasks) then
             (case remove_task tasks index d of
                (Inr removed, tasks', d') \<Rightarrow> (Has_been_removed removed, tasks', d')
              | (Inl e, tasks', d') \<Rightarrow> (Raised e, tasks', d'))
           else (Invalid_number, tasks, d)))"

section \<open>Expense\_Tracker\_CLI.py\<close>

text \<open>
  An expense is the dictionary built by \<open>add_expense\<close>. The amount is a Python float; the
  model leaves its type \<open>'a\<close> open and uses only its \<open>0\<close> and \<open>+\<close>, with no law
  assumed of them, and adds in the order in which the code adds.
\<close>

record 'a expense =
  e_id :: int
  e_name :: str
  amount :: 'a
  category :: str
  e_created_on :: date
  e_notes :: "str list"

definition CATEGORIES :: "str list" where
  "CATEGORIES =
     [lit ''Housing'', lit ''Food'', lit ''Transportation'', lit ''Utilities'',
      lit ''Healthcare'', lit ''Savings'', lit ''Debt'', lit ''Shopping'',
      lit ''Entertainment'']"

definition save_to_expense :: "'a expense list \<Rightarrow> 'a expense disk \<Rightarrow> 'a expense disk" where
  "save_to_expense tracked_expense d = \<lparr>content = tracked_expense, writes = Suc (writes d)\<rparr>"

text \<open>
  \<^verbatim>\<open>max\<close> over a non-empty sequence of ids: the first id is the candidate, and a later
  id replaces it when it is greater.
\<close>

fun max_from :: "int \<Rightarrow> int list \<Rightarrow> int" where
  "max_from m [] = m"
| "max_from m (x # xs) = max_from (if m < x then x else m) xs"

definition get_next_id :: "'a expense list \<Rightarrow> int" where
  "get_next_id tracked_expense =
     (case map e_id tracked_expense of
        [] \<Rightarrow> 1
      | i # ids \<Rightarrow> max_from i ids + 1)"

text \<open>
  \<open>add_expense\<close> from the point where its prompts have produced a name, a non-negative
  amount and a category of \<open>CATEGORIES\<close>. \<open>today\<close> is what \<^verbatim>\<open>date.today()\<close> reads from
  the system clock.
\<close>

definition add_expense ::
    "date \<Rightarrow> str \<Rightarrow> 'a \<Rightarrow> str \<Rightarrow> 'a expense list \<Rightarrow> 'a expense disk \<Rightarrow> 'a expense list \<times> 'a expense disk" where
  "add_expense today expense_name expense_amount expense_category tracked_expense d =
     (let new_expense =
            \<lparr>e_id = get_next_id tracked_expense, e_name = expense_name,
             amount = expense_amount, category = expense_category,
             e_created_on = today, e_notes = []\<rparr>;
          tracked' = tracked_expense @ [new_expense]
      in (tracked', save_to_expense tracked' d))"

text \<open>
  \<open>delete_expense\<close> walks the list; \<open>rest\<close> is what the loop has still to visit.
  \<^verbatim>\<open>list.remove(x)\<close> deletes the first element equal to \<open>x\<close>.
\<close>

fun delete_expense_loop ::
    "'a expense list \<Rightarrow> 'a expense list \<Rightarrow> int \<Rightarrow> 'a expense disk
       \<Rightarrow> 'a expense option \<times> 'a expense list \<times> 'a expense disk" where
  "delete_expense_loop [] tracked_expense expense_id d = (None, tracked_expense, d)"
| "delete_expense_loop (expense # rest) tracked_expense expense_id d =
     (if e_id expense = expense_id then
        (let tracked' = remove1 expense tracked_expense
         in (Some expense, tracked', save_to_expense tracked' d))
      else delete_expense_loop rest tracked_expense expense_id d)"

definition delete_expense ::
    "'a expense list \<Rightarrow> int \<Rightarrow> 'a expense disk
       \<Rightarrow> 'a expense option \<times> 'a expense list \<times> 'a expense disk" where
  "delete_expense tracked_expense expense_id d =
     delete_expense_loop tracked_expense tracked_expense expense_id d"

definition clear_all_expense :: "'a expense list \<Rightarrow> 'a expense disk \<Rightarrow> 'a expense list \<times> 'a expense disk" where
  "clear_all_expense expense d = ([], save_to_expense [] d)"

text \<open>
  \<open>view_monthly_report\<close> prints either "No expenses recorded yet." or a report: the
  month and year of the header, the total spent, and one line per category. The
  dictionary \<^verbatim>\<open>category_totals\<close> is a map; \<^verbatim>\<open>category_totals[c]\<close> raises
  \<^verbatim>\<open>KeyError\<close> for a key that is not in it.
\<close>

record 'a report =
  report_month :: int
  report_year :: int
  report_total :: 'a
  category_lines :: "(str \<times> 'a) list"

datatype 'a printed = No_expenses_recorded | Expense_report "'a report"

fun sum_expenses ::
    "date \<Rightarrow> 'a::plus expense list \<Rightarrow> (str \<rightharpoonup> 'a) \<Rightarrow> 'a \<Rightarrow> py_error + (str \<rightharpoonup> 'a) \<times> 'a" where
  "sum_expenses today [] category_totals total_spent = Inr (category_totals, total_spent)"
| "sum_expenses today (expense # rest) category_totals total_spent =
     (if month (e_created_on expense) = month today \<and> year (e_created_on expense) = year today
      then
        (case category_totals (category expense) of
           None \<Rightarrow> Inl KeyError
         | Some t \<Rightarrow>
             sum_expenses today rest
               (category_totals(category expense \<mapsto> t + amount expense))
               (total_spent + amount expense))
      else sum_expenses today rest category_totals total_spent)"

fun print_categories :: "(str \<rightharpoonup> 'a) \<Rightarrow> str list \<Rightarrow> py_error + (str \<times> 'a) list" where
  "print_categories category_totals [] = Inr []"
| "print_categories category_totals (c # cs) =
     (case category_totals c of
        None \<Rightarrow> Inl KeyError
      | Some t \<Rightarrow>
          (case print_categories category_totals cs of
             Inl e \<Rightarrow> Inl e
           | Inr ls \<Rightarrow> Inr ((c, t) # ls)))"

definition view_monthly_report :: "date \<Rightarrow> 'a::{zero,plus} expense list \<Rightarrow> py_error + 'a printed" where
  "view_monthly_report today tracked_expense =
     (if tracked_expense = [] then Inr No_expenses_recorded
      else
        (case sum_expenses today tracked_expense (map_of (map (\<lambda>c. (c, 0)) CATEGORIES)) 0 of
           Inl e \<Rightarrow> Inl e
         | Inr (category_totals, total_spent) \<Rightarrow>
             (case print_categories category_totals CATEGORIES of
                Inl e \<Rightarrow> Inl e
              | Inr ls \<Rightarrow>
                  Inr (Expense_report
                         \<lparr>report_month = month today, report_year = year today,
                          report_total = total_spent, category_lines = ls\<rparr>))))"

section \<open>Habit\_Tracker.py\<close>

text \<open>
  A habit is the dictionary built by \<open>add_habit\<close>; \<open>completed_dates\<close> is the list of
  the days on which it was marked complete, in the order of marking. In the file and in
  memory that list holds texts: \<open>mark_complete\<close> compares and appends texts, and
  \<open>get_streak\<close> reads every text as a date (\<^verbatim>\<open>date.fromisoformat\<close>) before it counts.
  The record leaves open what the list holds: a \<open>str habit\<close> is the habit as stored, a
  \<open>date habit\<close> is the habit with its texts read as dates.
\<close>

record 't habit =
  h_id :: int
  h_name :: str
  h_created_on :: date
  completed_dates :: "'t list"

definition save_habits :: "'t habit list \<Rightarrow> 't habit disk \<Rightarrow> 't habit disk" where
  "save_habits tracked_habits d = \<lparr>content = tracked_habits, writes = Suc (writes d)\<rparr>"

definition get_next_id_habit :: "'t habit list \<Rightarrow> int" where
  "get_next_id_habit tracked_habits =
     (case map h_id tracked_habits of
        [] \<Rightarrow> 1
      | i # ids \<Rightarrow> max_from i ids + 1)"

text \<open>\<open>add_habit\<close> reads one line (\<open>typed\<close>) for the name and strips it.\<close>

definition add_habit ::
    "date \<Rightarrow> str \<Rightarrow> 't habit list \<Rightarrow> 't habit disk \<Rightarrow> 't habit list \<times> 't habit disk" where
  "add_habit today typed tracked_habit d =
     (let habit_name = strip typed;
          new_habit =
            \<lparr>h_id = get_next_id_habit tracked_habit, h_name = habit_name,
             h_created_on = today, completed_dates = []\<rparr>;
          tracked' = tracked_habit @ [new_habit]
      in (tracked', save_habits tracked' d))"

fun delete_habit_loop ::
    "'t habit list \<Rightarrow> 't habit list \<Rightarrow> int \<Rightarrow> 't habit disk
       \<Rightarrow> 't habit option \<times> 't habit list \<times> 't habit disk" where
  "delete_habit_loop [] tracked_habits habit_id d = (None, tracked_habits, d)"
| "delete_habit_loop (h # rest) tracked_habits habit_id d =
     (if h_id h = habit_id then
        (let tracked' = remove1 h tracked_habits
         in (Some h, tracked', save_habits tracked' d))
      else delete_habit_loop rest tracked_habits habit_id d)"

definition delete_habit ::
    "'t habit list \<Rightarrow> int \<Rightarrow> 't habit disk \<Rightarrow> 't habit option \<times> 't habit list \<times> 't habit disk" where
  "delete_habit tracked_habits habit_id d =
     delete_habit_loop tracked_habits tracked_habits habit_id d"

definition clear_habits :: "'t habit list \<Rightarrow> 't habit disk \<Rightarrow> 't habit list \<times> 't habit disk" where
  "clear_habits habits d = ([], save_habits [] d)"

text \<open>
  \<open>mark_complete\<close> walks the list; \<open>seen\<close> holds the habits already passed and \<open>rest\<close>
  those still to visit. \<open>today\<close> is what \<^verbatim>\<open>date.today()\<close> reads from the system clock.
  At the habit with the given id the code writes today as a text, \<open>today_str\<close>, and
  looks for that text among the stored texts: the test \<^verbatim>\<open>today_str not in
  habit['completed_dates']\<close> compares strings, not dates. The result is Python's
  \<^verbatim>\<open>True\<close>, \<^verbatim>\<open>False\<close> or \<^verbatim>\<open>None\<close>. Appending to \<^verbatim>\<open>habit['completed_dates']\<close>
  changes the habit where it stands in the list.
\<close>

fun mark_complete_loop ::
    "date \<Rightarrow> str habit list \<Rightarrow> str habit list \<Rightarrow> int \<Rightarrow> str habit disk
       \<Rightarrow> bool option \<times> str habit list \<times> str habit disk" where
  "mark_complete_loop today seen [] habit_id d = (None, seen, d)"
| "mark_complete_loop today seen (h # rest) habit_id d =
     (if h_id h = habit_id then
        (let today_str = isoformat today in
         if today_str \<notin> set (completed_dates h) then
           (let tracked' = seen @ h\<lparr>completed_dates := completed_dates h @ [today_str]\<rparr> # rest
            in (Some True, tracked', save_habits tracked' d))
         else (Some False, seen @ h # rest, d))
      else mark_complete_loop today (seen @ [h]) rest habit_id d)"

definition mark_complete ::
    "date \<Rightarrow> str habit list \<Rightarrow> int \<Rightarrow> str habit disk
       \<Rightarrow> bool option \<times> str habit list \<times> str habit disk" where
  "mark_complete today tracked_habits habit_id d =
     mark_complete_loop today [] tracked_habits habit_id d"

text \<open>
  \<open>get_streak\<close>, from the point where its first line has read the stored texts as dates
  (\<open>completed_set\<close>): the loop counts while \<open>current_day\<close> is among the completed dates
  and steps one day back. Each step lowers the date, so the loop ends.
\<close>

function streak_loop :: "date list \<Rightarrow> date \<Rightarrow> nat \<Rightarrow> py_error + nat" where
  "streak_loop completed current_day streak =
     (if current_day \<in> set completed then
        (case minus_one_day current_day of
           Inl e \<Rightarrow> Inl e
         | Inr previous \<Rightarrow> streak_loop completed previous (Suc streak))
      else Inr streak)"
  by pat_completeness auto
termination
  by (relation "inv_image (less_than <*lex*> less_than <*lex*> less_than)
        (\<lambda>(completed, d, streak). (nat (year d), nat (month d), nat (day d)))")
     (auto simp: minus_one_day_def split: if_splits)

declare streak_loop.simps [simp del]

definition get_streak :: "date \<Rightarrow> date habit \<Rightarrow> py_error + nat" where
  "get_streak today habit = streak_loop (completed_dates habit) today 0"

section \<open>Notions used to state the properties\<close>

text \<open>
  An expense counts for the report of \<open>today\<close> when its creation date has the month and
  the year of \<open>today\<close>: the test that \<open>view_monthly_report\<close> applies to each record.
\<close>

definition same_month :: "date \<Rightarrow> 'a expense \<Rightarrow> bool" where
  "same_month today expense \<longleftrightarrow>
     month (e_created_on expense) = month today \<and> year (e_created_on expense) = year today"

text \<open>
  A session is a sequence of inserts and deletes applied to a list and its file. The run
  of a session records the id given to each inserted record and the id of each record
  that a delete removed, in the order in which this happened.
\<close>

datatype id_event = Assigned int | Freed int

datatype 'a expense_op = Insert_expense date str 'a str | Remove_expense int

datatype habit_op = Insert_habit date str | Remove_habit int

fun run_expense_ops :: "'a expense_op list \<Rightarrow> 'a expense list \<Rightarrow> 'a expense disk \<Rightarrow> id_event list" where
  "run_expense_ops [] tracked d = []"
| "run_expense_ops (Insert_expense today n a c # ops) tracked d =
     Assigned (e_id (last (fst (add_expense today n a c tracked d))))
       # run_expense_ops ops (fst (add_expense today n a c tracked d))
           (snd (add_expense today n a c tracked d))"
| "run_expense_ops (Remove_expense i # ops) tracked d =
     (case delete_expense tracked i d of
        (None, tracked', d') \<Rightarrow> run_expense_ops ops tracked' d'
      | (Some e, tracked', d') \<Rightarrow> Freed (e_id e) # run_expense_ops ops tracked' d')"

fun run_habit_ops :: "habit_op list \<Rightarrow> 't habit list \<Rightarrow> 't habit disk \<Rightarrow> id_event list" where
  "run_habit_ops [] tracked d = []"
| "run_habit_ops (Insert_habit today typed # ops) tracked d =
     Assigned (h_id (last (fst (add_habit today typed tracked d))))
       # run_habit_ops ops (fst (add_habit today typed tracked d))
           (snd (add_habit today typed tracked d))"
| "run_habit_ops (Remove_habit i # ops) tracked d =
     (case delete_habit tracked i d of
        (None, tracked', d') \<Rightarrow> run_habit_ops ops tracked' d'
      | (Some h, tracked', d') \<Rightarrow> Freed (h_id h) # run_habit_ops ops tracked' d')"

text \<open>The ids given to inserts, in order.\<close>

fun assigned :: "id_event list \<Rightarrow> int list" where
  "assigned [] = []"
| "assigned (Assigned i # es) = i # assigned es"
| "assigned (Freed i # es) = assigned es"

text \<open>No id is given to an insert after a delete has freed it.\<close>

fun no_reuse :: "id_event list \<Rightarrow> bool" where
  "no_reuse [] = True"
| "no_reuse (Assigned i # es) = no_reuse es"
| "no_reuse (Freed i # es) = (i \<notin> set (assigned es) \<and> no_reuse es)"

text \<open>
  A session spares the greatest id when none of its deletes asks for the id that is the
  greatest in the list at that moment, which is the next id minus one.
\<close>

fun spares_greatest_expense :: "'a expense_op list \<Rightarrow> 'a expense list \<Rightarrow> 'a expense disk \<Rightarrow> bool" where
  "spares_greatest_expense [] tracked d = True"
| "spares_greatest_expense (Insert_expense today n a c # ops) tracked d =
     spares_greatest_expense ops (fst (add_expense today n a c tracked d))
       (snd (add_expense today n a c tracked d))"
| "spares_greatest_expense (Remove_expense i # ops) tracked d =
     (\<not> (tracked \<noteq> [] \<and> get_next_id tracked = i + 1) \<and>
      spares_greatest_expense ops (fst (snd (delete_expense tracked i d)))
        (snd (snd (delete_expense tracked i d))))"

fun spares_greatest_habit :: "habit_op list \<Rightarrow> 't habit list \<Rightarrow> 't habit disk \<Rightarrow> bool" where
  "spares_greatest_habit [] tracked d = True"
| "spares_greatest_habit (Insert_habit today typed # ops) tracked d =
     spares_greatest_habit ops (fst (add_habit today typed tracked d))
       (snd (add_habit today typed tracked d))"
| "spares_greatest_habit (Remove_habit i # ops) tracked d =
     (\<not> (tracked \<noteq> [] \<and> get_next_id_habit tracked = i + 1) \<and>
      spares_greatest_habit ops (fst (snd (delete_habit tracked i d)))
        (snd (snd (delete_habit tracked i d))))"

section \<open>Properties\<close>

subsection \<open>Adding a task\<close>

lemma strip_empty_iff: "strip s = [] \<longleftrightarrow> (\<forall>c\<in>set s. isspace c)"
proof
  assume "strip s = []"
  then have "dropWhile isspace (rev (dropWhile isspace s)) = []"
    by (simp add: strip_def)
  then have all: "\<forall>c\<in>set (dropWhile isspace s). isspace c"
    by simp
  have "dropWhile isspace s = []"
  proof (rule ccontr)
    assume ne: "dropWhile isspace s \<noteq> []"
    then have "\<not> isspace (hd (dropWhile isspace s))"
      by (rule hd_dropWhile)
    moreover have "hd (dropWhile isspace s) \<in> set (dropWhile isspace s)"
      using ne by simp
    ultimately show False using all by blast
  qed
  then show "\<forall>c\<in>set s. isspace c"
    by simp
next
  assume "\<forall>c\<in>set s. isspace c"
  then have "dropWhile isspace s = []"
    by simp
  then show "strip s = []"
    unfolding strip_def by (auto dest: set_dropWhileD)
qed

text \<open>
  C9. A typed name strips to the empty string exactly when it consists of white space
  only. \<open>add_task\<close> then reports that no task was added and leaves the task list and
  the file as they were, with no write. Any other name is appended, stripped, at the end
  of the list, and the file is rewritten with the new list.
\<close>

theorem add_task_empty_name:
  "(strip typed = [] \<longleftrightarrow> (\<forall>c\<in>set typed. isspace c)) \<and>
   (strip typed = [] \<longrightarrow> add_task typed tasks d = (None, tasks, d)) \<and>
   (strip typed \<noteq> [] \<longrightarrow>
      add_task typed tasks d =
        (Some (strip typed), tasks @ [strip typed],
         \<lparr>content = tasks @ [strip typed], writes = Suc (writes d)\<rparr>))"
proof (intro conjI impI)
  show "strip typed = [] \<longleftrightarrow> (\<forall>c\<in>set typed. isspace c)"
    by (rule strip_empty_iff)
next
  assume "strip typed = []"
  then show "add_task typed tasks d = (None, tasks, d)"
    by (simp add: add_task_def)
next
  assume "strip typed \<noteq> []"
  then have "add_task typed tasks d =
      (Some (strip typed), tasks @ [strip typed], save_tasks (tasks @ [strip typed]) d)"
    by (simp add: add_task_def Let_def)
  then show "add_task typed tasks d =
        (Some (strip typed), tasks @ [strip typed],
         \<lparr>content = tasks @ [strip typed], writes = Suc (writes d)\<rparr>)"
    by (simp add: save_tasks_def)
qed

theorem add_task_empty_name_witness:
  "add_task (lit ''  '') [lit ''walk''] \<lparr>content = [lit ''walk''], writes = 0\<rparr>
     = (None, [lit ''walk''], \<lparr>content = [lit ''walk''], writes = 0\<rparr>) \<and>
   add_task (lit '' buy milk '') [lit ''walk''] \<lparr>content = [lit ''walk''], writes = 0\<rparr>
     = (Some (lit ''buy milk''), [lit ''walk'', lit ''buy milk''],
        \<lparr>content = [lit ''walk'', lit ''buy milk''], writes = 1\<rparr>)"
proof -
  have e: "strip (lit ''  '') = []"
    by (simp add: lit_def strip_def isspace_def)
  have n: "strip (lit '' buy milk '') = lit ''buy milk''"
    by (simp add: lit_def strip_def isspace_def)
  have n': "strip (lit '' buy milk '') \<noteq> []"
    unfolding n by (simp add: lit_def)
  show ?thesis
    using add_task_empty_name [of "lit ''  ''" "[lit ''walk'']" "\<lparr>content = [lit ''walk''], writes = 0\<rparr>"]
      add_task_empty_name [of "lit '' buy milk ''" "[lit ''walk'']" "\<lparr>content = [lit ''walk''], writes = 0\<rparr>"]
      e n n'
    by simp
qed


subsection \<open>Removing a task by position\<close>

lemma pop_overflow:
  "index < - (2 ^ 63) \<or> 2 ^ 63 \<le> index \<Longrightarrow> pop xs index = Inl OverflowError"
  by (simp add: pop_def)

lemma pop_in_range:
  "0 \<le> index \<Longrightarrow> index < int (length xs) \<Longrightarrow> int (length xs) < 2 ^ 63 \<Longrightarrow>
     pop xs index = Inr (xs ! nat index, take (nat index) xs @ drop (Suc (nat index)) xs)"
  by (simp add: pop_def Let_def)

lemma pop_from_end:
  "- int (length xs) \<le> index \<Longrightarrow> index < 0 \<Longrightarrow> int (length xs) < 2 ^ 63 \<Longrightarrow>
     pop xs index =
       Inr (xs ! nat (index + int (length xs)),
            take (nat (index + int (length xs))) xs @ drop (Suc (nat (index + int (length xs)))) xs)"
  by (simp add: pop_def Let_def)

lemma pop_out_of_range:
  "- (2 ^ 63) \<le> index \<Longrightarrow> index < 2 ^ 63 \<Longrightarrow>
   index < - int (length xs) \<or> int (length xs) \<le> index \<Longrightarrow> pop xs index = Inl IndexError"
  by (auto simp: pop_def Let_def)

text \<open>
  C6, as the code has it. \<open>remove_task\<close> fails and changes neither the list nor the file
  when the index is at or beyond the length or below minus the length: with
  \<^verbatim>\<open>IndexError\<close> when the index fits the signed 64-bit machine integer, with
  \<^verbatim>\<open>OverflowError\<close> when it is below \<open>- 2 ^ 63\<close> or at least \<open>2 ^ 63\<close>. For an index from
  0 up to the length it removes the task at that position, returns it and rewrites the
  file. An index from minus the length up to \<open>-1\<close> is not refused: it counts from the
  end, and the task at position length plus index is removed and the file rewritten. The
  test \<open>0 \<le> index < len\<close> is made by the caller in \<open>main\<close>, which for every other index
  prints a message, does not call \<open>remove_task\<close> and leaves list and file as they were.
  The list has fewer than \<open>2 ^ 63\<close> tasks, as every Python list has.
\<close>

theorem remove_task_index:
  "(index < - (2 ^ 63) \<or> 2 ^ 63 \<le> index \<longrightarrow>
      remove_task tasks index d = (Inl OverflowError, tasks, d)) \<and>
   (- (2 ^ 63) \<le> index \<and> index < 2 ^ 63 \<and>
    (index < - int (length tasks) \<or> int (length tasks) \<le> index) \<longrightarrow>
      remove_task tasks index d = (Inl IndexError, tasks, d)) \<and>
   (0 \<le> index \<and> index < int (length tasks) \<and> int (length tasks) < 2 ^ 63 \<longrightarrow>
      remove_task tasks index d =
        (Inr (tasks ! nat index), take (nat index) tasks @ drop (Suc (nat index)) tasks,
         \<lparr>content = take (nat index) tasks @ drop (Suc (nat index)) tasks,
          writes = Suc (writes d)\<rparr>)) \<and>
   (- int (length tasks) \<le> index \<and> index < 0 \<and> int (length tasks) < 2 ^ 63 \<longrightarrow>
      remove_task tasks index d =
        (Inr (tasks ! nat (index + int (length tasks))),
         take (nat (index + int (length tasks))) tasks
           @ drop (Suc (nat (index + int (length tasks)))) tasks,
         \<lparr>content = take (nat (index + int (length tasks))) tasks
                      @ drop (Suc (nat (index + int (length tasks)))) tasks,
          writes = Suc (writes d)\<rparr>)) \<and>
   (\<not> (0 \<le> c - 1 \<and> c - 1 < int (length tasks)) \<longrightarrow>
      main_remove (Some c) tasks d =
        (if tasks = [] then List_is_empty else Invalid_number, tasks, d)) \<and>
   (0 \<le> c - 1 \<and> c - 1 < int (length tasks) \<and> int (length tasks) < 2 ^ 63 \<longrightarrow>
      main_remove (Some c) tasks d =
        (Has_been_removed (tasks ! nat (c - 1)),
         take (nat (c - 1)) tasks @ drop (Suc (nat (c - 1))) tasks,
         \<lparr>content = take (nat (c - 1)) tasks @ drop (Suc (nat (c - 1))) tasks,
          writes = Suc (writes d)\<rparr>))"
proof (intro conjI impI)
  assume "index < - (2 ^ 63) \<or> 2 ^ 63 \<le> index"
  then have "pop tasks index = Inl OverflowError"
    by (rule pop_overflow)
  then show "remove_task tasks index d = (Inl OverflowError, tasks, d)"
    by (simp add: remove_task_def)
next
  assume "- (2 ^ 63) \<le> index \<and> index < 2 ^ 63 \<and>
    (index < - int (length tasks) \<or> int (length tasks) \<le> index)"
  then have "pop tasks index = Inl IndexError"
    by (simp add: pop_out_of_range)
  then show "remove_task tasks index d = (Inl IndexError, tasks, d)"
    by (simp add: remove_task_def)
next
  assume "0 \<le> index \<and> index < int (length tasks) \<and> int (length tasks) < 2 ^ 63"
  then have "pop tasks index =
      Inr (tasks ! nat index, take (nat index) tasks @ drop (Suc (nat index)) tasks)"
    by (simp add: pop_in_range)
  then show "remove_task tasks index d =
        (Inr (tasks ! nat index), take (nat index) tasks @ drop (Suc (nat index)) tasks,
         \<lparr>content = take (nat index) tasks @ drop (Suc (nat index)) tasks,
          writes = Suc (writes d)\<rparr>)"
    by (simp add: remove_task_def save_tasks_def)
next
  assume "- int (length tasks) \<le> index \<and> index < 0 \<and> int (length tasks) < 2 ^ 63"
  then have "pop tasks index =
      Inr (tasks ! nat (index + int (length tasks)),
           take (nat (index + int (length tasks))) tasks
             @ drop (Suc (nat (index + int (length tasks)))) tasks)"
    by (simp add: pop_from_end)
  then show "remove_task tasks index d =
        (Inr (tasks ! nat (index + int (length tasks))),
         take (nat (index + int (length tasks))) tasks
           @ drop (Suc (nat (index + int (length tasks)))) tasks,
         \<lparr>content = take (nat (index + int (length tasks))) tasks
                      @ drop (Suc (nat (index + int (length tasks)))) tasks,
          writes = Suc (writes d)\<rparr>)"
    by (simp add: remove_task_def save_tasks_def)
next
  assume "\<not> (0 \<le> c - 1 \<and> c - 1 < int (length tasks))"
  then show "main_remove (Some c) tasks d =
        (if tasks = [] then List_is_empty else Invalid_number, tasks, d)"
    unfolding main_remove_def Let_def by (cases "tasks = []") auto
next
  assume r: "0 \<le> c - 1 \<and> c - 1 < int (length tasks) \<and> int (length tasks) < 2 ^ 63"
  then have ne: "tasks \<noteq> []" by auto
  from r have "pop tasks (c - 1) =
      Inr (tasks ! nat (c - 1), take (nat (c - 1)) tasks @ drop (Suc (nat (c - 1))) tasks)"
    by (simp add: pop_in_range)
  with r ne show "main_remove (Some c) tasks d =
        (Has_been_removed (tasks ! nat (c - 1)),
         take (nat (c - 1)) tasks @ drop (Suc (nat (c - 1))) tasks,
         \<lparr>content = take (nat (c - 1)) tasks @ drop (Suc (nat (c - 1))) tasks,
          writes = Suc (writes d)\<rparr>)"
    by (simp add: main_remove_def Let_def remove_task_def save_tasks_def)
qed

theorem remove_task_index_witness:
  "remove_task [lit ''a'', lit ''b''] (2 ^ 63) \<lparr>content = [lit ''a'', lit ''b''], writes = 0\<rparr>
     = (Inl OverflowError, [lit ''a'', lit ''b''], \<lparr>content = [lit ''a'', lit ''b''], writes = 0\<rparr>) \<and>
   remove_task [lit ''a'', lit ''b''] 2 \<lparr>content = [lit ''a'', lit ''b''], writes = 0\<rparr>
     = (Inl IndexError, [lit ''a'', lit ''b''], \<lparr>content = [lit ''a'', lit ''b''], writes = 0\<rparr>) \<and>
   remove_task [lit ''a'', lit ''b''] (- 3) \<lparr>content = [lit ''a'', lit ''b''], writes = 0\<rparr>
     = (Inl IndexError, [lit ''a'', lit ''b''], \<lparr>content = [lit ''a'', lit ''b''], writes = 0\<rparr>) \<and>
   remove_task [lit ''a'', lit ''b''] 0 \<lparr>content = [lit ''a'', lit ''b''], writes = 0\<rparr>
     = (Inr (lit ''a''), [lit ''b''], \<lparr>content = [lit ''b''], writes = 1\<rparr>) \<and>
   remove_task [lit ''a'', lit ''b''] (- 2) \<lparr>content = [lit ''a'', lit ''b''], writes = 0\<rparr>
     = (Inr (lit ''a''), [lit ''b''], \<lparr>content = [lit ''b''], writes = 1\<rparr>) \<and>
   main_remove (Some 0) [lit ''a'', lit ''b''] \<lparr>content = [lit ''a'', lit ''b''], writes = 0\<rparr>
     = (Invalid_number, [lit ''a'', lit ''b''], \<lparr>content = [lit ''a'', lit ''b''], writes = 0\<rparr>) \<and>
   main_remove (Some 2) [lit ''a'', lit ''b''] \<lparr>content = [lit ''a'', lit ''b''], writes = 0\<rparr>
     = (Has_been_removed (lit ''b''), [lit ''a''], \<lparr>content = [lit ''a''], writes = 1\<rparr>)"
  using remove_task_index [of "2 ^ 63" "[lit ''a'', lit ''b'']" "\<lparr>content = [lit ''a'', lit ''b''], writes = 0\<rparr>" 0]
    remove_task_index [of 2 "[lit ''a'', lit ''b'']" "\<lparr>content = [lit ''a'', lit ''b''], writes = 0\<rparr>" 0]
    remove_task_index [of "- 3" "[lit ''a'', lit ''b'']" "\<lparr>content = [lit ''a'', lit ''b''], writes = 0\<rparr>" 0]
    remove_task_index [of 0 "[lit ''a'', lit ''b'']" "\<lparr>content = [lit ''a'', lit ''b''], writes = 0\<rparr>" 2]
    remove_task_index [of "- 2" "[lit ''a'', lit ''b'']" "\<lparr>content = [lit ''a'', lit ''b''], writes = 0\<rparr>" 0]
  by simp

text \<open>
  The index \<open>-1\<close> is outside \<open>[0, len)\<close> for the list of two tasks, yet \<open>remove_task\<close>
  removes the last task and rewrites the file.
\<close>

theorem remove_task_negative_index_counterexample:
  "\<not> (0 \<le> (- 1 :: int) \<and> (- 1 :: int) < int (length [lit ''a'', lit ''b''])) \<and>
   remove_task [lit ''a'', lit ''b''] (- 1) \<lparr>content = [lit ''a'', lit ''b''], writes = 0\<rparr>
     = (Inr (lit ''b''), [lit ''a''], \<lparr>content = [lit ''a''], writes = 1\<rparr>)"
  by (simp add: remove_task_def pop_def save_tasks_def Let_def)

subsection \<open>Marking a habit complete\<close>

lemma mark_complete_loop_no_match:
  "\<forall>h\<in>set rest. h_id h \<noteq> habit_id \<Longrightarrow>
     mark_complete_loop today seen rest habit_id d = (None, seen @ rest, d)"
  by (induction rest arbitrary: seen) auto

lemma mark_complete_loop_first_match:
  "\<forall>x\<in>set pre. h_id x \<noteq> h_id h \<Longrightarrow>
     mark_complete_loop today seen (pre @ h # post) (h_id h) d =
       (if isoformat today \<notin> set (completed_dates h) then
          (Some True,
           seen @ pre @ h\<lparr>completed_dates := completed_dates h @ [isoformat today]\<rparr> # post,
           save_habits
             (seen @ pre @ h\<lparr>completed_dates := completed_dates h @ [isoformat today]\<rparr> # post) d)
        else (Some False, seen @ pre @ h # post, d))"
proof (induction pre arbitrary: seen)
  case Nil
  show ?case by (simp add: Let_def)
next
  case (Cons a pre)
  then have "h_id a \<noteq> h_id h" and "\<forall>x\<in>set pre. h_id x \<noteq> h_id h" by simp_all
  then show ?case using Cons.IH [of "seen @ [a]"] by simp
qed







text \<open>
  C10. When no habit has the given id, \<open>mark_complete\<close> returns \<^verbatim>\<open>None\<close>, which is
  neither \<^verbatim>\<open>True\<close> (newly recorded) nor \<^verbatim>\<open>False\<close> (already recorded); the habit
  list with all its completion dates and the file are as before, and nothing is written.
\<close>

theorem mark_complete_not_found:
  "\<forall>h\<in>set tracked_habits. h_id h \<noteq> habit_id \<Longrightarrow>
     mark_complete today tracked_habits habit_id d = (None, tracked_habits, d) \<and>
     None \<noteq> Some True \<and> None \<noteq> Some False"
proof -
  assume "\<forall>h\<in>set tracked_habits. h_id h \<noteq> habit_id"
  then have "mark_complete_loop today [] tracked_habits habit_id d = (None, [] @ tracked_habits, d)"
    by (rule mark_complete_loop_no_match)
  then have "mark_complete today tracked_habits habit_id d = (None, tracked_habits, d)"
    by (simp add: mark_complete_def)
  then show ?thesis
    by simp
qed

theorem mark_complete_not_found_witness:
  "mark_complete \<lparr>year = 2026, month = 2, day = 25\<rparr>
     [\<lparr>h_id = 1, h_name = lit ''run'', h_created_on = \<lparr>year = 2026, month = 2, day = 1\<rparr>,
       completed_dates = []\<rparr>]
     7 \<lparr>content = [], writes = 3\<rparr>
   = (None,
      [\<lparr>h_id = 1, h_name = lit ''run'', h_created_on = \<lparr>year = 2026, month = 2, day = 1\<rparr>,
        completed_dates = []\<rparr>],
      \<lparr>content = [], writes = 3\<rparr>)"
  using mark_complete_not_found
    [of "[\<lparr>h_id = 1, h_name = lit ''run'', h_created_on = \<lparr>year = 2026, month = 2, day = 1\<rparr>,
           completed_dates = []\<rparr>]"
        7 "\<lparr>year = 2026, month = 2, day = 25\<rparr>" "\<lparr>content = [], writes = 3\<rparr>"]
  by simp




subsection \<open>Deleting by id\<close>

lemma delete_expense_loop_first_match:
  "\<forall>x\<in>set pre. e_id x \<noteq> expense_id \<Longrightarrow> e_id e = expense_id \<Longrightarrow>
     delete_expense_loop (pre @ e # post) tracked expense_id d =
       (Some e, remove1 e tracked, save_to_expense (remove1 e tracked) d)"
  by (induction pre) (simp_all add: Let_def)

lemma delete_expense_loop_no_match:
  "\<forall>x\<in>set rest. e_id x \<noteq> expense_id \<Longrightarrow>
     delete_expense_loop rest tracked expense_id d = (None, tracked, d)"
  by (induction rest) simp_all

lemma delete_habit_loop_first_match:
  "\<forall>x\<in>set pre. h_id x \<noteq> habit_id \<Longrightarrow> h_id h = habit_id \<Longrightarrow>
     delete_habit_loop (pre @ h # post) tracked habit_id d =
       (Some h, remove1 h tracked, save_habits (remove1 h tracked) d)"
  by (induction pre) (simp_all add: Let_def)

lemma delete_habit_loop_no_match:
  "\<forall>x\<in>set rest. h_id x \<noteq> habit_id \<Longrightarrow>
     delete_habit_loop rest tracked habit_id d = (None, tracked, d)"
  by (induction rest) simp_all

lemma remove1_first_match:
  "e \<notin> set pre \<Longrightarrow> remove1 e (pre @ e # post) = pre @ post"
  by (simp add: remove1_append)

text \<open>
  C4. \<open>delete_expense\<close> and \<open>delete_habit\<close> scan the list in order. When the list is
  \<open>pre @ e # post\<close> with no record of the given id in \<open>pre\<close> and \<open>e\<close> of that id, the
  record \<open>e\<close> is removed and returned, and the file is rewritten with \<open>pre @ post\<close>. When
  no record has the id, the result is \<^verbatim>\<open>None\<close>, and the list and the file are as
  before, with no write.
\<close>

theorem delete_by_id:
  "(tracked_expense = pre @ e # post \<and> (\<forall>x\<in>set pre. e_id x \<noteq> expense_id) \<and> e_id e = expense_id
      \<longrightarrow> delete_expense tracked_expense expense_id d =
            (Some e, pre @ post, \<lparr>content = pre @ post, writes = Suc (writes d)\<rparr>)) \<and>
   ((\<forall>x\<in>set tracked_expense. e_id x \<noteq> expense_id)
      \<longrightarrow> delete_expense tracked_expense expense_id d = (None, tracked_expense, d)) \<and>
   (tracked_habits = hpre @ h # hpost \<and> (\<forall>x\<in>set hpre. h_id x \<noteq> habit_id) \<and> h_id h = habit_id
      \<longrightarrow> delete_habit tracked_habits habit_id dh =
            (Some h, hpre @ hpost, \<lparr>content = hpre @ hpost, writes = Suc (writes dh)\<rparr>)) \<and>
   ((\<forall>x\<in>set tracked_habits. h_id x \<noteq> habit_id)
      \<longrightarrow> delete_habit tracked_habits habit_id dh = (None, tracked_habits, dh))"
proof (intro conjI impI)
  assume a: "tracked_expense = pre @ e # post \<and> (\<forall>x\<in>set pre. e_id x \<noteq> expense_id) \<and> e_id e = expense_id"
  then have "e \<notin> set pre" by auto
  then have "remove1 e tracked_expense = pre @ post"
    using a by (simp add: remove1_first_match)
  then show "delete_expense tracked_expense expense_id d =
            (Some e, pre @ post, \<lparr>content = pre @ post, writes = Suc (writes d)\<rparr>)"
    using a delete_expense_loop_first_match [of pre expense_id e post tracked_expense d]
    by (simp add: delete_expense_def save_to_expense_def)
next
  assume "\<forall>x\<in>set tracked_expense. e_id x \<noteq> expense_id"
  then show "delete_expense tracked_expense expense_id d = (None, tracked_expense, d)"
    by (simp add: delete_expense_def delete_expense_loop_no_match)
next
  assume a: "tracked_habits = hpre @ h # hpost \<and> (\<forall>x\<in>set hpre. h_id x \<noteq> habit_id) \<and> h_id h = habit_id"
  then have "h \<notin> set hpre" by auto
  then have "remove1 h tracked_habits = hpre @ hpost"
    using a by (simp add: remove1_first_match)
  then show "delete_habit tracked_habits habit_id dh =
            (Some h, hpre @ hpost, \<lparr>content = hpre @ hpost, writes = Suc (writes dh)\<rparr>)"
    using a delete_habit_loop_first_match [of hpre habit_id h hpost tracked_habits dh]
    by (simp add: delete_habit_def save_habits_def)
next
  assume "\<forall>x\<in>set tracked_habits. h_id x \<noteq> habit_id"
  then show "delete_habit tracked_habits habit_id dh = (None, tracked_habits, dh)"
    by (simp add: delete_habit_def delete_habit_loop_no_match)
qed

theorem delete_by_id_witness:
  "delete_expense
     [\<lparr>e_id = 1, e_name = lit ''rent'', amount = 900 :: int, category = lit ''Housing'',
       e_created_on = \<lparr>year = 2026, month = 2, day = 1\<rparr>, e_notes = []\<rparr>,
      \<lparr>e_id = 2, e_name = lit ''bread'', amount = 3, category = lit ''Food'',
       e_created_on = \<lparr>year = 2026, month = 2, day = 2\<rparr>, e_notes = []\<rparr>]
     2 \<lparr>content = [], writes = 0\<rparr>
   = (Some \<lparr>e_id = 2, e_name = lit ''bread'', amount = 3, category = lit ''Food'',
            e_created_on = \<lparr>year = 2026, month = 2, day = 2\<rparr>, e_notes = []\<rparr>,
      [\<lparr>e_id = 1, e_name = lit ''rent'', amount = 900, category = lit ''Housing'',
        e_created_on = \<lparr>year = 2026, month = 2, day = 1\<rparr>, e_notes = []\<rparr>],
      \<lparr>content =
         [\<lparr>e_id = 1, e_name = lit ''rent'', amount = 900, category = lit ''Housing'',
           e_created_on = \<lparr>year = 2026, month = 2, day = 1\<rparr>, e_notes = []\<rparr>],
       writes = 1\<rparr>) \<and>
   delete_habit
     [\<lparr>h_id = 1, h_name = lit ''run'', h_created_on = \<lparr>year = 2026, month = 2, day = 1\<rparr>,
       completed_dates = ([] :: str list)\<rparr>]
     7 \<lparr>content = [], writes = 0\<rparr>
   = (None,
      [\<lparr>h_id = 1, h_name = lit ''run'', h_created_on = \<lparr>year = 2026, month = 2, day = 1\<rparr>,
        completed_dates = []\<rparr>],
      \<lparr>content = [], writes = 0\<rparr>)"
  using delete_by_id
    [where tracked_expense =
         "[\<lparr>e_id = 1, e_name = lit ''rent'', amount = 900 :: int, category = lit ''Housing'',
            e_created_on = \<lparr>year = 2026, month = 2, day = 1\<rparr>, e_notes = []\<rparr>,
           \<lparr>e_id = 2, e_name = lit ''bread'', amount = 3, category = lit ''Food'',
            e_created_on = \<lparr>year = 2026, month = 2, day = 2\<rparr>, e_notes = []\<rparr>]"
       and pre =
         "[\<lparr>e_id = 1, e_name = lit ''rent'', amount = 900 :: int, category = lit ''Housing'',
            e_created_on = \<lparr>year = 2026, month = 2, day = 1\<rparr>, e_notes = []\<rparr>]"
       and e =
         "\<lparr>e_id = 2, e_name = lit ''bread'', amount = 3 :: int, category = lit ''Food'',
            e_created_on = \<lparr>year = 2026, month = 2, day = 2\<rparr>, e_notes = []\<rparr>"
       and post = "[]" and expense_id = 2 and d = "\<lparr>content = [], writes = 0\<rparr>"
       and tracked_habits =
         "[\<lparr>h_id = 1, h_name = lit ''run'', h_created_on = \<lparr>year = 2026, month = 2, day = 1\<rparr>,
            completed_dates = ([] :: str list)\<rparr>]"
       and habit_id = 7 and dh = "\<lparr>content = [], writes = 0\<rparr>"]
  by simp

subsection \<open>Every change is saved\<close>

lemma delete_expense_loop_outcome:
  "delete_expense_loop rest tracked expense_id d = (r, tracked', d') \<Longrightarrow>
     (r = None \<longrightarrow> tracked' = tracked \<and> d' = d) \<and>
     (r \<noteq> None \<longrightarrow> content d' = tracked' \<and> writes d' = Suc (writes d))"
proof (induction rest)
  case Nil
  then show ?case by simp
next
  case (Cons a rest)
  then show ?case
    by (cases "e_id a = expense_id") (auto simp: Let_def save_to_expense_def)
qed

lemma delete_habit_loop_outcome:
  "delete_habit_loop rest tracked habit_id d = (r, tracked', d') \<Longrightarrow>
     (r = None \<longrightarrow> tracked' = tracked \<and> d' = d) \<and>
     (r \<noteq> None \<longrightarrow> content d' = tracked' \<and> writes d' = Suc (writes d))"
proof (induction rest)
  case Nil
  then show ?case by simp
next
  case (Cons a rest)
  then show ?case
    by (cases "h_id a = habit_id") (auto simp: Let_def save_habits_def)
qed

lemma mark_complete_loop_outcome:
  "mark_complete_loop today seen rest habit_id d = (r, tracked', d') \<Longrightarrow>
     (r = Some True \<longrightarrow> content d' = tracked' \<and> writes d' = Suc (writes d)) \<and>
     (r \<noteq> Some True \<longrightarrow> tracked' = seen @ rest \<and> d' = d)"
proof (induction rest arbitrary: seen)
  case Nil
  then show ?case by auto
next
  case (Cons a rest)
  show ?case
  proof (cases "h_id a = habit_id")
    case True
    with Cons.prems show ?thesis
      by (cases "isoformat today \<in> set (completed_dates a)") (auto simp: Let_def save_habits_def)
  next
    case False
    with Cons.prems have "mark_complete_loop today (seen @ [a]) rest habit_id d = (r, tracked', d')"
      by simp
    then have "(r = Some True \<longrightarrow> content d' = tracked' \<and> writes d' = Suc (writes d)) \<and>
        (r \<noteq> Some True \<longrightarrow> tracked' = (seen @ [a]) @ rest \<and> d' = d)"
      by (rule Cons.IH)
    then show ?thesis by simp
  qed
qed

text \<open>
  C7. Every operation that changes a list rewrites the file with the list as it then is,
  so that the file decodes to the list in memory and one write has been made.
  \<open>add_expense\<close> and \<open>add_habit\<close> always append the new record and save; \<open>add_task\<close>
  appends and saves when the stripped name is not empty. \<open>delete_expense\<close> and
  \<open>delete_habit\<close> remove the first record of the given id and save; \<open>remove_task\<close>
  removes the task at an index inside the list and saves. \<open>mark_complete\<close> appends
  today's text to the first habit of the given id that does not hold it, and saves.
  The three clearing operations write the empty collection whatever the list held,
  also when it was empty already. In every outcome of the operations that can fail,
  either the result reports the change and the file holds the new list after one more
  write, or the result reports no change and both the list and the file are as before.
\<close>

theorem mutation_is_saved:
  "add_expense today expense_name expense_amount expense_category tracked_expense d =
     (tracked_expense @
        [\<lparr>e_id = get_next_id tracked_expense, e_name = expense_name, amount = expense_amount,
          category = expense_category, e_created_on = today, e_notes = []\<rparr>],
      \<lparr>content = tracked_expense @
         [\<lparr>e_id = get_next_id tracked_expense, e_name = expense_name, amount = expense_amount,
           category = expense_category, e_created_on = today, e_notes = []\<rparr>],
       writes = Suc (writes d)\<rparr>) \<and>
   (tracked_expense = pre @ e # post \<and> (\<forall>x\<in>set pre. e_id x \<noteq> expense_id) \<and> e_id e = expense_id
      \<longrightarrow> delete_expense tracked_expense expense_id d =
            (Some e, pre @ post, \<lparr>content = pre @ post, writes = Suc (writes d)\<rparr>)) \<and>
   (delete_expense tracked_expense expense_id d = (r, tracked', d')
      \<longrightarrow> (r = None \<longrightarrow> tracked' = tracked_expense \<and> d' = d) \<and>
          (r \<noteq> None \<longrightarrow> content d' = tracked' \<and> writes d' = Suc (writes d))) \<and>
   clear_all_expense tracked_expense d = ([], \<lparr>content = [], writes = Suc (writes d)\<rparr>) \<and>
   add_habit today typed tracked_habits dh =
     (tracked_habits @
        [\<lparr>h_id = get_next_id_habit tracked_habits, h_name = strip typed,
          h_created_on = today, completed_dates = []\<rparr>],
      \<lparr>content = tracked_habits @
         [\<lparr>h_id = get_next_id_habit tracked_habits, h_name = strip typed,
           h_created_on = today, completed_dates = []\<rparr>],
       writes = Suc (writes dh)\<rparr>) \<and>
   (tracked_habits = hpre @ h # hpost \<and> (\<forall>x\<in>set hpre. h_id x \<noteq> habit_id) \<and> h_id h = habit_id
      \<longrightarrow> delete_habit tracked_habits habit_id dh =
            (Some h, hpre @ hpost, \<lparr>content = hpre @ hpost, writes = Suc (writes dh)\<rparr>)) \<and>
   (delete_habit tracked_habits habit_id dh = (rh, habits', dh')
      \<longrightarrow> (rh = None \<longrightarrow> habits' = tracked_habits \<and> dh' = dh) \<and>
          (rh \<noteq> None \<longrightarrow> content dh' = habits' \<and> writes dh' = Suc (writes dh))) \<and>
   clear_habits tracked_habits dh = ([], \<lparr>content = [], writes = Suc (writes dh)\<rparr>) \<and>
   (tracked_habits = hpre @ h # hpost \<and> (\<forall>x\<in>set hpre. h_id x \<noteq> habit_id) \<and> h_id h = habit_id \<and>
    isoformat today \<notin> set (completed_dates h)
      \<longrightarrow> mark_complete today tracked_habits habit_id dh =
            (Some True,
             hpre @ h\<lparr>completed_dates := completed_dates h @ [isoformat today]\<rparr> # hpost,
             \<lparr>content =
                hpre @ h\<lparr>completed_dates := completed_dates h @ [isoformat today]\<rparr> # hpost,
              writes = Suc (writes dh)\<rparr>)) \<and>
   (mark_complete today tracked_habits habit_id dh = (rm, marked', dm')
      \<longrightarrow> (rm = Some True \<longrightarrow> content dm' = marked' \<and> writes dm' = Suc (writes dh)) \<and>
          (rm \<noteq> Some True \<longrightarrow> marked' = tracked_habits \<and> dm' = dh)) \<and>
   (strip typed \<noteq> []
      \<longrightarrow> add_task typed tasks dt =
            (Some (strip typed), tasks @ [strip typed],
             \<lparr>content = tasks @ [strip typed], writes = Suc (writes dt)\<rparr>)) \<and>
   (add_task typed tasks dt = (rt, tasks', dt')
      \<longrightarrow> (rt = None \<longrightarrow> tasks' = tasks \<and> dt' = dt) \<and>
          (rt \<noteq> None \<longrightarrow> content dt' = tasks' \<and> writes dt' = Suc (writes dt))) \<and>
   (0 \<le> index \<and> index < int (length tasks) \<and> int (length tasks) < 2 ^ 63
      \<longrightarrow> remove_task tasks index dt =
            (Inr (tasks ! nat index), take (nat index) tasks @ drop (Suc (nat index)) tasks,
             \<lparr>content = take (nat index) tasks @ drop (Suc (nat index)) tasks,
              writes = Suc (writes dt)\<rparr>)) \<and>
   (remove_task tasks index dt = (rr, removed', dr')
      \<longrightarrow> (case rr of
             Inl err \<Rightarrow> removed' = tasks \<and> dr' = dt
           | Inr removed \<Rightarrow> content dr' = removed' \<and> writes dr' = Suc (writes dt))) \<and>
   clear_list tasks dt = ([], \<lparr>content = [], writes = Suc (writes dt)\<rparr>)"
proof -
  have add_e: "add_expense today expense_name expense_amount expense_category tracked_expense d =
     (tracked_expense @
        [\<lparr>e_id = get_next_id tracked_expense, e_name = expense_name, amount = expense_amount,
          category = expense_category, e_created_on = today, e_notes = []\<rparr>],
      \<lparr>content = tracked_expense @
         [\<lparr>e_id = get_next_id tracked_expense, e_name = expense_name, amount = expense_amount,
           category = expense_category, e_created_on = today, e_notes = []\<rparr>],
       writes = Suc (writes d)\<rparr>)"
    by (simp add: add_expense_def Let_def save_to_expense_def)
  have del_e: "tracked_expense = pre @ e # post \<and> (\<forall>x\<in>set pre. e_id x \<noteq> expense_id) \<and> e_id e = expense_id
      \<longrightarrow> delete_expense tracked_expense expense_id d =
            (Some e, pre @ post, \<lparr>content = pre @ post, writes = Suc (writes d)\<rparr>)"
  proof
    assume a: "tracked_expense = pre @ e # post \<and> (\<forall>x\<in>set pre. e_id x \<noteq> expense_id) \<and> e_id e = expense_id"
    then have "e \<notin> set pre" by auto
    then have "remove1 e tracked_expense = pre @ post"
      using a by (simp add: remove1_first_match)
    then show "delete_expense tracked_expense expense_id d =
              (Some e, pre @ post, \<lparr>content = pre @ post, writes = Suc (writes d)\<rparr>)"
      using a delete_expense_loop_first_match [of pre expense_id e post tracked_expense d]
      by (simp add: delete_expense_def save_to_expense_def)
  qed
  have out_e: "delete_expense tracked_expense expense_id d = (r, tracked', d')
      \<longrightarrow> (r = None \<longrightarrow> tracked' = tracked_expense \<and> d' = d) \<and>
          (r \<noteq> None \<longrightarrow> content d' = tracked' \<and> writes d' = Suc (writes d))"
  proof
    assume "delete_expense tracked_expense expense_id d = (r, tracked', d')"
    then have "delete_expense_loop tracked_expense tracked_expense expense_id d = (r, tracked', d')"
      by (simp add: delete_expense_def)
    then show "(r = None \<longrightarrow> tracked' = tracked_expense \<and> d' = d) \<and>
        (r \<noteq> None \<longrightarrow> content d' = tracked' \<and> writes d' = Suc (writes d))"
      by (rule delete_expense_loop_outcome)
  qed
  have clr_e: "clear_all_expense tracked_expense d = ([], \<lparr>content = [], writes = Suc (writes d)\<rparr>)"
    by (simp add: clear_all_expense_def save_to_expense_def)
  have add_h: "add_habit today typed tracked_habits dh =
     (tracked_habits @
        [\<lparr>h_id = get_next_id_habit tracked_habits, h_name = strip typed,
          h_created_on = today, completed_dates = []\<rparr>],
      \<lparr>content = tracked_habits @
         [\<lparr>h_id = get_next_id_habit tracked_habits, h_name = strip typed,
           h_created_on = today, completed_dates = []\<rparr>],
       writes = Suc (writes dh)\<rparr>)"
    by (simp add: add_habit_def Let_def save_habits_def)
  have del_h: "tracked_habits = hpre @ h # hpost \<and> (\<forall>x\<in>set hpre. h_id x \<noteq> habit_id) \<and> h_id h = habit_id
      \<longrightarrow> delete_habit tracked_habits habit_id dh =
            (Some h, hpre @ hpost, \<lparr>content = hpre @ hpost, writes = Suc (writes dh)\<rparr>)"
  proof
    assume a: "tracked_habits = hpre @ h # hpost \<and> (\<forall>x\<in>set hpre. h_id x \<noteq> habit_id) \<and> h_id h = habit_id"
    then have "h \<notin> set hpre" by auto
    then have "remove1 h tracked_habits = hpre @ hpost"
      using a by (simp add: remove1_first_match)
    then show "delete_habit tracked_habits habit_id dh =
              (Some h, hpre @ hpost, \<lparr>content = hpre @ hpost, writes = Suc (writes dh)\<rparr>)"
      using a delete_habit_loop_first_match [of hpre habit_id h hpost tracked_habits dh]
      by (simp add: delete_habit_def save_habits_def)
  qed
  have out_h: "delete_habit tracked_habits habit_id dh = (rh, habits', dh')
      \<longrightarrow> (rh = None \<longrightarrow> habits' = tracked_habits \<and> dh' = dh) \<and>
          (rh \<noteq> None \<longrightarrow> content dh' = habits' \<and> writes dh' = Suc (writes dh))"
  proof
    assume "delete_habit tracked_habits habit_id dh = (rh, habits', dh')"
    then have "delete_habit_loop tracked_habits tracked_habits habit_id dh = (rh, habits', dh')"
      by (simp add: delete_habit_def)
    then show "(rh = None \<longrightarrow> habits' = tracked_habits \<and> dh' = dh) \<and>
        (rh \<noteq> None \<longrightarrow> content dh' = habits' \<and> writes dh' = Suc (writes dh))"
      by (rule delete_habit_loop_outcome)
  qed
  have clr_h: "clear_habits tracked_habits dh = ([], \<lparr>content = [], writes = Suc (writes dh)\<rparr>)"
    by (simp add: clear_habits_def save_habits_def)
  have mark: "tracked_habits = hpre @ h # hpost \<and> (\<forall>x\<in>set hpre. h_id x \<noteq> habit_id) \<and> h_id h = habit_id \<and>
    isoformat today \<notin> set (completed_dates h)
      \<longrightarrow> mark_complete today tracked_habits habit_id dh =
            (Some True,
             hpre @ h\<lparr>completed_dates := completed_dates h @ [isoformat today]\<rparr> # hpost,
             \<lparr>content =
                hpre @ h\<lparr>completed_dates := completed_dates h @ [isoformat today]\<rparr> # hpost,
              writes = Suc (writes dh)\<rparr>)"
  proof
    assume a: "tracked_habits = hpre @ h # hpost \<and> (\<forall>x\<in>set hpre. h_id x \<noteq> habit_id) \<and> h_id h = habit_id \<and>
      isoformat today \<notin> set (completed_dates h)"
    then have "\<forall>x\<in>set hpre. h_id x \<noteq> h_id h" by simp
    from mark_complete_loop_first_match [OF this, of today "[]" hpost dh] a
    show "mark_complete today tracked_habits habit_id dh =
              (Some True,
               hpre @ h\<lparr>completed_dates := completed_dates h @ [isoformat today]\<rparr> # hpost,
               \<lparr>content =
                  hpre @ h\<lparr>completed_dates := completed_dates h @ [isoformat today]\<rparr> # hpost,
                writes = Suc (writes dh)\<rparr>)"
      by (simp add: mark_complete_def save_habits_def)
  qed
  have out_m: "mark_complete today tracked_habits habit_id dh = (rm, marked', dm')
      \<longrightarrow> (rm = Some True \<longrightarrow> content dm' = marked' \<and> writes dm' = Suc (writes dh)) \<and>
          (rm \<noteq> Some True \<longrightarrow> marked' = tracked_habits \<and> dm' = dh)"
  proof
    assume "mark_complete today tracked_habits habit_id dh = (rm, marked', dm')"
    then have "mark_complete_loop today [] tracked_habits habit_id dh = (rm, marked', dm')"
      by (simp add: mark_complete_def)
    then have "(rm = Some True \<longrightarrow> content dm' = marked' \<and> writes dm' = Suc (writes dh)) \<and>
        (rm \<noteq> Some True \<longrightarrow> marked' = [] @ tracked_habits \<and> dm' = dh)"
      by (rule mark_complete_loop_outcome)
    then show "(rm = Some True \<longrightarrow> content dm' = marked' \<and> writes dm' = Suc (writes dh)) \<and>
        (rm \<noteq> Some True \<longrightarrow> marked' = tracked_habits \<and> dm' = dh)"
      by simp
  qed
  have add_t: "strip typed \<noteq> []
      \<longrightarrow> add_task typed tasks dt =
            (Some (strip typed), tasks @ [strip typed],
             \<lparr>content = tasks @ [strip typed], writes = Suc (writes dt)\<rparr>)"
    by (simp add: add_task_def Let_def save_tasks_def)
  have out_t: "add_task typed tasks dt = (rt, tasks', dt')
      \<longrightarrow> (rt = None \<longrightarrow> tasks' = tasks \<and> dt' = dt) \<and>
          (rt \<noteq> None \<longrightarrow> content dt' = tasks' \<and> writes dt' = Suc (writes dt))"
  proof (cases "strip typed = []")
    case True
    then show ?thesis by (auto simp: add_task_def)
  next
    case False
    then show ?thesis by (auto simp: add_task_def Let_def save_tasks_def)
  qed
  have rem_t: "0 \<le> index \<and> index < int (length tasks) \<and> int (length tasks) < 2 ^ 63
      \<longrightarrow> remove_task tasks index dt =
            (Inr (tasks ! nat index), take (nat index) tasks @ drop (Suc (nat index)) tasks,
             \<lparr>content = take (nat index) tasks @ drop (Suc (nat index)) tasks,
              writes = Suc (writes dt)\<rparr>)"
  proof
    assume "0 \<le> index \<and> index < int (length tasks) \<and> int (length tasks) < 2 ^ 63"
    then have "pop tasks index =
        Inr (tasks ! nat index, take (nat index) tasks @ drop (Suc (nat index)) tasks)"
      by (simp add: pop_in_range)
    then show "remove_task tasks index dt =
              (Inr (tasks ! nat index), take (nat index) tasks @ drop (Suc (nat index)) tasks,
               \<lparr>content = take (nat index) tasks @ drop (Suc (nat index)) tasks,
                writes = Suc (writes dt)\<rparr>)"
      by (simp add: remove_task_def save_tasks_def)
  qed
  have out_r: "remove_task tasks index dt = (rr, removed', dr')
      \<longrightarrow> (case rr of
             Inl err \<Rightarrow> removed' = tasks \<and> dr' = dt
           | Inr removed \<Rightarrow> content dr' = removed' \<and> writes dr' = Suc (writes dt))"
  proof (cases "pop tasks index")
    case (Inl err)
    then show ?thesis by (auto simp: remove_task_def)
  next
    case (Inr p)
    then show ?thesis by (cases p) (auto simp: remove_task_def save_tasks_def)
  qed
  have clr_t: "clear_list tasks dt = ([], \<lparr>content = [], writes = Suc (writes dt)\<rparr>)"
    by (simp add: clear_list_def save_tasks_def)
  from add_e del_e out_e clr_e add_h del_h out_h clr_h mark out_m add_t out_t rem_t out_r clr_t
  show ?thesis
    by (intro conjI) assumption+
qed

theorem mutation_is_saved_witness:
  "add_expense \<lparr>year = 2026, month = 2, day = 25\<rparr> (lit ''bread'') (3 :: int) (lit ''Food'')
     [\<lparr>e_id = 1, e_name = lit ''rent'', amount = 900, category = lit ''Housing'',
       e_created_on = \<lparr>year = 2026, month = 2, day = 1\<rparr>, e_notes = []\<rparr>]
     \<lparr>content =
        [\<lparr>e_id = 1, e_name = lit ''rent'', amount = 900, category = lit ''Housing'',
          e_created_on = \<lparr>year = 2026, month = 2, day = 1\<rparr>, e_notes = []\<rparr>],
      writes = 1\<rparr>
   = ([\<lparr>e_id = 1, e_name = lit ''rent'', amount = 900, category = lit ''Housing'',
        e_created_on = \<lparr>year = 2026, month = 2, day = 1\<rparr>, e_notes = []\<rparr>,
       \<lparr>e_id = 2, e_name = lit ''bread'', amount = 3, category = lit ''Food'',
        e_created_on = \<lparr>year = 2026, month = 2, day = 25\<rparr>, e_notes = []\<rparr>],
      \<lparr>content =
         [\<lparr>e_id = 1, e_name = lit ''rent'', amount = 900, category = lit ''Housing'',
           e_created_on = \<lparr>year = 2026, month = 2, day = 1\<rparr>, e_notes = []\<rparr>,
          \<lparr>e_id = 2, e_name = lit ''bread'', amount = 3, category = lit ''Food'',
           e_created_on = \<lparr>year = 2026, month = 2, day = 25\<rparr>, e_notes = []\<rparr>],
       writes = 2\<rparr>) \<and>
   delete_expense
     [\<lparr>e_id = 1, e_name = lit ''rent'', amount = 900 :: int, category = lit ''Housing'',
       e_created_on = \<lparr>year = 2026, month = 2, day = 1\<rparr>, e_notes = []\<rparr>]
     1
     \<lparr>content =
        [\<lparr>e_id = 1, e_name = lit ''rent'', amount = 900, category = lit ''Housing'',
          e_created_on = \<lparr>year = 2026, month = 2, day = 1\<rparr>, e_notes = []\<rparr>],
      writes = 1\<rparr>
   = (Some \<lparr>e_id = 1, e_name = lit ''rent'', amount = 900, category = lit ''Housing'',
            e_created_on = \<lparr>year = 2026, month = 2, day = 1\<rparr>, e_notes = []\<rparr>,
      [], \<lparr>content = [], writes = 2\<rparr>) \<and>
   delete_expense
     [\<lparr>e_id = 1, e_name = lit ''rent'', amount = 900 :: int, category = lit ''Housing'',
       e_created_on = \<lparr>year = 2026, month = 2, day = 1\<rparr>, e_notes = []\<rparr>]
     5
     \<lparr>content =
        [\<lparr>e_id = 1, e_name = lit ''rent'', amount = 900, category = lit ''Housing'',
          e_created_on = \<lparr>year = 2026, month = 2, day = 1\<rparr>, e_notes = []\<rparr>],
      writes = 1\<rparr>
   = (None,
      [\<lparr>e_id = 1, e_name = lit ''rent'', amount = 900, category = lit ''Housing'',
        e_created_on = \<lparr>year = 2026, month = 2, day = 1\<rparr>, e_notes = []\<rparr>],
      \<lparr>content =
         [\<lparr>e_id = 1, e_name = lit ''rent'', amount = 900, category = lit ''Housing'',
           e_created_on = \<lparr>year = 2026, month = 2, day = 1\<rparr>, e_notes = []\<rparr>],
       writes = 1\<rparr>) \<and>
   clear_all_expense ([] :: int expense list) \<lparr>content = [], writes = 0\<rparr>
   = ([], \<lparr>content = [], writes = 1\<rparr>) \<and>
   add_habit \<lparr>year = 2026, month = 2, day = 25\<rparr> (lit '' walk '')
     [\<lparr>h_id = 1, h_name = lit ''run'', h_created_on = \<lparr>year = 2026, month = 2, day = 1\<rparr>,
       completed_dates = [lit ''2026-02-24'']\<rparr>]
     \<lparr>content =
        [\<lparr>h_id = 1, h_name = lit ''run'', h_created_on = \<lparr>year = 2026, month = 2, day = 1\<rparr>,
          completed_dates = [lit ''2026-02-24'']\<rparr>],
      writes = 1\<rparr>
   = ([\<lparr>h_id = 1, h_name = lit ''run'', h_created_on = \<lparr>year = 2026, month = 2, day = 1\<rparr>,
        completed_dates = [lit ''2026-02-24'']\<rparr>,
       \<lparr>h_id = 2, h_name = lit ''walk'', h_created_on = \<lparr>year = 2026, month = 2, day = 25\<rparr>,
        completed_dates = []\<rparr>],
      \<lparr>content =
         [\<lparr>h_id = 1, h_name = lit ''run'', h_created_on = \<lparr>year = 2026, month = 2, day = 1\<rparr>,
           completed_dates = [lit ''2026-02-24'']\<rparr>,
          \<lparr>h_id = 2, h_name = lit ''walk'', h_created_on = \<lparr>year = 2026, month = 2, day = 25\<rparr>,
           completed_dates = []\<rparr>],
       writes = 2\<rparr>) \<and>
   delete_habit
     [\<lparr>h_id = 1, h_name = lit ''run'', h_created_on = \<lparr>year = 2026, month = 2, day = 1\<rparr>,
       completed_dates = [lit ''2026-02-24'']\<rparr>]
     1
     \<lparr>content =
        [\<lparr>h_id = 1, h_name = lit ''run'', h_created_on = \<lparr>year = 2026, month = 2, day = 1\<rparr>,
          completed_dates = [lit ''2026-02-24'']\<rparr>],
      writes = 1\<rparr>
   = (Some \<lparr>h_id = 1, h_name = lit ''run'', h_created_on = \<lparr>year = 2026, month = 2, day = 1\<rparr>,
            completed_dates = [lit ''2026-02-24'']\<rparr>,
      [], \<lparr>content = [], writes = 2\<rparr>) \<and>
   delete_habit
     [\<lparr>h_id = 1, h_name = lit ''run'', h_created_on = \<lparr>year = 2026, month = 2, day = 1\<rparr>,
       completed_dates = [lit ''2026-02-24'']\<rparr>]
     7
     \<lparr>content =
        [\<lparr>h_id = 1, h_name = lit ''run'', h_created_on = \<lparr>year = 2026, month = 2, day = 1\<rparr>,
          completed_dates = [lit ''2026-02-24'']\<rparr>],
      writes = 1\<rparr>
   = (None,
      [\<lparr>h_id = 1, h_name = lit ''run'', h_created_on = \<lparr>year = 2026, month = 2, day = 1\<rparr>,
        completed_dates = [lit ''2026-02-24'']\<rparr>],
      \<lparr>content =
         [\<lparr>h_id = 1, h_name = lit ''run'', h_created_on = \<lparr>year = 2026, month = 2, day = 1\<rparr>,
           completed_dates = [lit ''2026-02-24'']\<rparr>],
       writes = 1\<rparr>) \<and>
   clear_habits
     [\<lparr>h_id = 1, h_name = lit ''run'', h_created_on = \<lparr>year = 2026, month = 2, day = 1\<rparr>,
       completed_dates = [lit ''2026-02-24'']\<rparr>]
     \<lparr>content =
        [\<lparr>h_id = 1, h_name = lit ''run'', h_created_on = \<lparr>year = 2026, month = 2, day = 1\<rparr>,
          completed_dates = [lit ''2026-02-24'']\<rparr>],
      writes = 1\<rparr>
   = ([], \<lparr>content = [], writes = 2\<rparr>) \<and>
   mark_complete \<lparr>year = 2026, month = 2, day = 25\<rparr>
     [\<lparr>h_id = 1, h_name = lit ''run'', h_created_on = \<lparr>year = 2026, month = 2, day = 1\<rparr>,
       completed_dates = [lit ''2026-02-24'']\<rparr>]
     1
     \<lparr>content =
        [\<lparr>h_id = 1, h_name = lit ''run'', h_created_on = \<lparr>year = 2026, month = 2, day = 1\<rparr>,
          completed_dates = [lit ''2026-02-24'']\<rparr>],
      writes = 1\<rparr>
   = (Some True,
      [\<lparr>h_id = 1, h_name = lit ''run'', h_created_on = \<lparr>year = 2026, month = 2, day = 1\<rparr>,
        completed_dates = [lit ''2026-02-24'', lit ''2026-02-25'']\<rparr>],
      \<lparr>content =
         [\<lparr>h_id = 1, h_name = lit ''run'', h_created_on = \<lparr>year = 2026, month = 2, day = 1\<rparr>,
           completed_dates = [lit ''2026-02-24'', lit ''2026-02-25'']\<rparr>],
       writes = 2\<rparr>) \<and>
   mark_complete \<lparr>year = 2026, month = 2, day = 24\<rparr>
     [\<lparr>h_id = 1, h_name = lit ''run'', h_created_on = \<lparr>year = 2026, month = 2, day = 1\<rparr>,
       completed_dates = [lit ''2026-02-24'']\<rparr>]
     1
     \<lparr>content =
        [\<lparr>h_id = 1, h_name = lit ''run'', h_created_on = \<lparr>year = 2026, month = 2, day = 1\<rparr>,
          completed_dates = [lit ''2026-02-24'']\<rparr>],
      writes = 1\<rparr>
   = (Some False,
      [\<lparr>h_id = 1, h_name = lit ''run'', h_created_on = \<lparr>year = 2026, month = 2, day = 1\<rparr>,
        completed_dates = [lit ''2026-02-24'']\<rparr>],
      \<lparr>content =
         [\<lparr>h_id = 1, h_name = lit ''run'', h_created_on = \<lparr>year = 2026, month = 2, day = 1\<rparr>,
           completed_dates = [lit ''2026-02-24'']\<rparr>],
       writes = 1\<rparr>) \<and>
   add_task (lit '' walk '') [lit ''run''] \<lparr>content = [lit ''run''], writes = 1\<rparr>
   = (Some (lit ''walk''), [lit ''run'', lit ''walk''],
      \<lparr>content = [lit ''run'', lit ''walk''], writes = 2\<rparr>) \<and>
   add_task (lit ''  '') [lit ''run''] \<lparr>content = [lit ''run''], writes = 1\<rparr>
   = (None, [lit ''run''], \<lparr>content = [lit ''run''], writes = 1\<rparr>) \<and>
   remove_task [lit ''run''] 0 \<lparr>content = [lit ''run''], writes = 1\<rparr>
   = (Inr (lit ''run''), [], \<lparr>content = [], writes = 2\<rparr>) \<and>
   remove_task [lit ''run''] 1 \<lparr>content = [lit ''run''], writes = 1\<rparr>
   = (Inl IndexError, [lit ''run''], \<lparr>content = [lit ''run''], writes = 1\<rparr>) \<and>
   clear_list [] \<lparr>content = [], writes = 0\<rparr> = ([], \<lparr>content = [], writes = 1\<rparr>)"
proof -
  let ?T = "\<lparr>year = 2026, month = 2, day = 25\<rparr>"
  let ?Y = "\<lparr>year = 2026, month = 2, day = 24\<rparr>"
  let ?E = "\<lparr>e_id = 1, e_name = lit ''rent'', amount = 900 :: int, category = lit ''Housing'',
             e_created_on = \<lparr>year = 2026, month = 2, day = 1\<rparr>, e_notes = []\<rparr>"
  let ?F = "\<lparr>e_id = 2, e_name = lit ''bread'', amount = 3 :: int, category = lit ''Food'',
             e_created_on = ?T, e_notes = []\<rparr>"
  let ?H = "\<lparr>h_id = 1, h_name = lit ''run'', h_created_on = \<lparr>year = 2026, month = 2, day = 1\<rparr>,
             completed_dates = [lit ''2026-02-24'']\<rparr>"
  let ?G = "\<lparr>h_id = 1, h_name = lit ''run'', h_created_on = \<lparr>year = 2026, month = 2, day = 1\<rparr>,
             completed_dates = [lit ''2026-02-24'', lit ''2026-02-25'']\<rparr>"
  let ?W = "\<lparr>h_id = 2, h_name = lit ''walk'', h_created_on = ?T,
             completed_dates = ([] :: str list)\<rparr>"
  let ?De = "\<lparr>content = [?E], writes = 1\<rparr>"
  let ?Dh = "\<lparr>content = [?H], writes = 1\<rparr>"
  let ?Dt = "\<lparr>content = [lit ''run''], writes = 1\<rparr>"
  let ?Ze = "\<lparr>content = ([] :: int expense list), writes = 0\<rparr>"
  let ?Zt = "\<lparr>content = ([] :: str list), writes = 0\<rparr>"
  have t: "isoformat ?T = lit ''2026-02-25''" and y: "isoformat ?Y = lit ''2026-02-24''"
    by (simp_all add: isoformat_def digit_def lit_def)
  have ne: "lit ''2026-02-25'' \<noteq> lit ''2026-02-24''"
    by (simp add: lit_def)
  have w: "strip (lit '' walk '') = lit ''walk''" and b: "strip (lit ''  '') = []"
    by (simp_all add: strip_def isspace_def lit_def)
  have wn: "lit ''walk'' \<noteq> []"
    by (simp add: lit_def)
  have n1: "get_next_id [?E] = 2" and n2: "get_next_id_habit [?H] = 2"
    by (simp_all add: get_next_id_def get_next_id_habit_def)
  txt \<open>The outcomes that report a change.\<close>
  note changed = mutation_is_saved
    [where today = ?T and expense_name = "lit ''bread''" and expense_amount = "3 :: int"
       and expense_category = "lit ''Food''" and tracked_expense = "[?E]" and d = ?De
       and pre = "[]" and e = ?E and post = "[]" and expense_id = 1
       and r = "Some ?E" and tracked' = "[]" and d' = "\<lparr>content = [], writes = 2\<rparr>"
       and typed = "lit '' walk ''" and tracked_habits = "[?H]" and dh = ?Dh
       and hpre = "[]" and h = ?H and hpost = "[]" and habit_id = 1
       and rh = "Some ?H" and habits' = "[]" and dh' = "\<lparr>content = [], writes = 2\<rparr>"
       and rm = "Some True" and marked' = "[?G]" and dm' = "\<lparr>content = [?G], writes = 2\<rparr>"
       and tasks = "[lit ''run'']" and dt = ?Dt
       and rt = "Some (lit ''walk'')" and tasks' = "[lit ''run'', lit ''walk'']"
       and dt' = "\<lparr>content = [lit ''run'', lit ''walk''], writes = 2\<rparr>"
       and index = 0 and rr = "Inr (lit ''run'')" and removed' = "[]"
       and dr' = "\<lparr>content = [], writes = 2\<rparr>"]
  have 1: "add_expense ?T (lit ''bread'') (3 :: int) (lit ''Food'') [?E] ?De
      = ([?E, ?F], \<lparr>content = [?E, ?F], writes = 2\<rparr>)"
    using changed by (simp add: n1)
  have 2: "delete_expense [?E] 1 ?De = (Some ?E, [], \<lparr>content = [], writes = 2\<rparr>)"
    using changed by simp
  have 4: "add_habit ?T (lit '' walk '') [?H] ?Dh = ([?H, ?W], \<lparr>content = [?H, ?W], writes = 2\<rparr>)"
    using changed by (simp add: n2 w)
  have 5: "delete_habit [?H] 1 ?Dh = (Some ?H, [], \<lparr>content = [], writes = 2\<rparr>)"
    using changed by simp
  have 6: "clear_habits [?H] ?Dh = ([], \<lparr>content = [], writes = 2\<rparr>)"
    using changed by simp
  have 7: "mark_complete ?T [?H] 1 ?Dh = (Some True, [?G], \<lparr>content = [?G], writes = 2\<rparr>)"
    using changed by (simp add: t ne)
  have 8: "add_task (lit '' walk '') [lit ''run''] ?Dt
      = (Some (lit ''walk''), [lit ''run'', lit ''walk''],
         \<lparr>content = [lit ''run'', lit ''walk''], writes = 2\<rparr>)"
    using changed by (simp add: w wn)
  have 9: "remove_task [lit ''run''] 0 ?Dt = (Inr (lit ''run''), [], \<lparr>content = [], writes = 2\<rparr>)"
    using changed by simp
  txt \<open>Clearing what is empty already.\<close>
  note cleared = mutation_is_saved
    [where today = ?T and expense_name = "lit ''bread''" and expense_amount = "3 :: int"
       and expense_category = "lit ''Food''" and tracked_expense = "[]" and d = ?Ze
       and pre = "[]" and e = ?E and post = "[]" and expense_id = 1
       and r = "None" and tracked' = "[]" and d' = ?Ze
       and typed = "lit '' walk ''" and tracked_habits = "[?H]" and dh = ?Dh
       and hpre = "[]" and h = ?H and hpost = "[]" and habit_id = 1
       and rh = "Some ?H" and habits' = "[]" and dh' = "\<lparr>content = [], writes = 2\<rparr>"
       and rm = "Some True" and marked' = "[?G]" and dm' = "\<lparr>content = [?G], writes = 2\<rparr>"
       and tasks = "[]" and dt = ?Zt
       and rt = "Some (lit ''walk'')" and tasks' = "[lit ''walk'']"
       and dt' = "\<lparr>content = [lit ''walk''], writes = 1\<rparr>"
       and index = 0 and rr = "Inl IndexError" and removed' = "[]" and dr' = ?Zt]
  have 3: "clear_all_expense ([] :: int expense list) ?Ze = ([], \<lparr>content = [], writes = 1\<rparr>)"
    using cleared by simp
  have 10: "clear_list [] ?Zt = ([], \<lparr>content = [], writes = 1\<rparr>)"
    using cleared by simp
  txt \<open>The outcomes that report no change: the result is read off the operation.\<close>
  have r2: "fst (delete_expense [?E] 5 ?De) = None"
    by (simp add: delete_expense_def)
  have r5: "fst (delete_habit [?H] 7 ?Dh) = None"
    by (simp add: delete_habit_def)
  have r7: "fst (mark_complete ?Y [?H] 1 ?Dh) = Some False"
    by (simp add: mark_complete_def Let_def y)
  have r8: "fst (add_task (lit ''  '') [lit ''run''] ?Dt) = None"
    by (simp add: add_task_def b)
  have r9: "fst (remove_task [lit ''run''] 1 ?Dt) = Inl IndexError"
    by (simp add: remove_task_def pop_def lit_def)
  note unchanged = mutation_is_saved
    [where today = ?Y and expense_name = "lit ''bread''" and expense_amount = "3 :: int"
       and expense_category = "lit ''Food''" and tracked_expense = "[?E]" and d = ?De
       and pre = "[]" and e = ?E and post = "[]" and expense_id = 5
       and r = "fst (delete_expense [?E] 5 ?De)"
       and tracked' = "fst (snd (delete_expense [?E] 5 ?De))"
       and d' = "snd (snd (delete_expense [?E] 5 ?De))"
       and typed = "lit ''  ''" and tracked_habits = "[?H]" and dh = ?Dh
       and hpre = "[]" and h = ?H and hpost = "[]" and habit_id = 7
       and rh = "fst (delete_habit [?H] 7 ?Dh)"
       and habits' = "fst (snd (delete_habit [?H] 7 ?Dh))"
       and dh' = "snd (snd (delete_habit [?H] 7 ?Dh))"
       and rm = "Some True" and marked' = "[?G]" and dm' = "\<lparr>content = [?G], writes = 2\<rparr>"
       and tasks = "[lit ''run'']" and dt = ?Dt
       and rt = "fst (add_task (lit ''  '') [lit ''run''] ?Dt)"
       and tasks' = "fst (snd (add_task (lit ''  '') [lit ''run''] ?Dt))"
       and dt' = "snd (snd (add_task (lit ''  '') [lit ''run''] ?Dt))"
       and index = 1
       and rr = "fst (remove_task [lit ''run''] 1 ?Dt)"
       and removed' = "fst (snd (remove_task [lit ''run''] 1 ?Dt))"
       and dr' = "snd (snd (remove_task [lit ''run''] 1 ?Dt))"]
  have 12: "delete_expense [?E] 5 ?De = (None, [?E], ?De)"
    using unchanged r2 by (simp add: prod_eq_iff)
  have 15: "delete_habit [?H] 7 ?Dh = (None, [?H], ?Dh)"
    using unchanged r5 by (simp add: prod_eq_iff)
  have 18: "add_task (lit ''  '') [lit ''run''] ?Dt = (None, [lit ''run''], ?Dt)"
    using unchanged r8 by (simp add: prod_eq_iff)
  have 19: "remove_task [lit ''run''] 1 ?Dt = (Inl IndexError, [lit ''run''], ?Dt)"
    using unchanged r9 by (simp add: prod_eq_iff)
  note recorded = mutation_is_saved
    [where today = ?Y and expense_name = "lit ''bread''" and expense_amount = "3 :: int"
       and expense_category = "lit ''Food''" and tracked_expense = "[?E]" and d = ?De
       and pre = "[]" and e = ?E and post = "[]" and expense_id = 5
       and r = "Some ?E" and tracked' = "[]" and d' = ?De
       and typed = "lit ''  ''" and tracked_habits = "[?H]" and dh = ?Dh
       and hpre = "[]" and h = ?H and hpost = "[]" and habit_id = 1
       and rh = "None" and habits' = "[]" and dh' = ?Dh
       and rm = "fst (mark_complete ?Y [?H] 1 ?Dh)"
       and marked' = "fst (snd (mark_complete ?Y [?H] 1 ?Dh))"
       and dm' = "snd (snd (mark_complete ?Y [?H] 1 ?Dh))"
       and tasks = "[lit ''run'']" and dt = ?Dt
       and rt = "None" and tasks' = "[]" and dt' = ?Dt
       and index = 1 and rr = "Inl IndexError" and removed' = "[]" and dr' = ?Dt]
  have 17: "mark_complete ?Y [?H] 1 ?Dh = (Some False, [?H], ?Dh)"
    using recorded r7 by (simp add: prod_eq_iff)
  from 1 2 12 3 4 5 15 6 7 17 8 18 9 19 10 show ?thesis
    by simp
qed

subsection \<open>The monthly report\<close>

lemma sum_expenses_skip:
  "\<not> same_month today e \<Longrightarrow> sum_expenses today (e # xs) ct t = sum_expenses today xs ct t"
  by (auto simp: same_month_def)

lemma sum_expenses_add:
  "same_month today e \<Longrightarrow> ct (category e) = Some v \<Longrightarrow>
     sum_expenses today (e # xs) ct t =
       sum_expenses today xs (ct(category e \<mapsto> v + amount e)) (t + amount e)"
  by (auto simp: same_month_def)

lemma sum_expenses_raise:
  "same_month today e \<Longrightarrow> ct (category e) = None \<Longrightarrow>
     sum_expenses today (e # xs) ct t = Inl KeyError"
  by (auto simp: same_month_def)

lemma sum_expenses_totals:
  "\<forall>e\<in>set xs. same_month today e \<longrightarrow> category e \<in> dom ct \<Longrightarrow>
     sum_expenses today xs ct t =
       Inr (\<lambda>c. map_option
                  (\<lambda>v. foldl (+) v (map amount (filter (\<lambda>e. same_month today e \<and> category e = c) xs)))
                  (ct c),
            foldl (+) t (map amount (filter (same_month today) xs)))"
proof (induction xs arbitrary: ct t)
  case Nil
  show ?case by (simp add: option.map_ident)
next
  case (Cons e xs)
  show ?case
  proof (cases "same_month today e")
    case False
    moreover from Cons.prems have "\<forall>e\<in>set xs. same_month today e \<longrightarrow> category e \<in> dom ct"
      by simp
    ultimately show ?thesis
      using Cons.IH [of ct t] by (simp add: sum_expenses_skip del: sum_expenses.simps)
  next
    case True
    with Cons.prems obtain v where v: "ct (category e) = Some v"
      by auto
    let ?ct = "ct(category e \<mapsto> v + amount e)"
    from Cons.prems have "\<forall>e'\<in>set xs. same_month today e' \<longrightarrow> category e' \<in> dom ?ct"
      by auto
    then have "sum_expenses today xs ?ct (t + amount e) =
       Inr (\<lambda>c. map_option
                  (\<lambda>v. foldl (+) v (map amount (filter (\<lambda>e. same_month today e \<and> category e = c) xs)))
                  (?ct c),
            foldl (+) (t + amount e) (map amount (filter (same_month today) xs)))"
      by (rule Cons.IH)
    moreover have "sum_expenses today (e # xs) ct t = sum_expenses today xs ?ct (t + amount e)"
      using True v by (rule sum_expenses_add)
    moreover have
      "(\<lambda>c. map_option
                  (\<lambda>v. foldl (+) v (map amount (filter (\<lambda>e. same_month today e \<and> category e = c) xs)))
                  (?ct c))
       = (\<lambda>c. map_option
                  (\<lambda>v. foldl (+) v (map amount (filter (\<lambda>e. same_month today e \<and> category e = c) (e # xs))))
                  (ct c))"
      using True v by (auto simp: fun_eq_iff)
    ultimately show ?thesis
      using True by (simp del: sum_expenses.simps)
  qed
qed

lemma sum_expenses_key_error:
  "\<exists>e\<in>set xs. same_month today e \<and> category e \<notin> dom ct \<Longrightarrow>
     sum_expenses today xs ct t = Inl KeyError"
proof (induction xs arbitrary: ct t)
  case Nil
  then show ?case by simp
next
  case (Cons e xs)
  show ?case
  proof (cases "same_month today e")
    case False
    with Cons.prems have "\<exists>e\<in>set xs. same_month today e \<and> category e \<notin> dom ct"
      by auto
    then have "sum_expenses today xs ct t = Inl KeyError"
      by (rule Cons.IH)
    with False show ?thesis by (simp add: sum_expenses_skip del: sum_expenses.simps)
  next
    case True
    show ?thesis
    proof (cases "ct (category e)")
      case None
      with True show ?thesis by (rule sum_expenses_raise)
    next
      case (Some v)
      let ?ct = "ct(category e \<mapsto> v + amount e)"
      from Some have "dom ?ct = dom ct" by auto
      moreover from Cons.prems Some have "\<exists>e\<in>set xs. same_month today e \<and> category e \<notin> dom ct"
        by auto
      ultimately have "\<exists>e\<in>set xs. same_month today e \<and> category e \<notin> dom ?ct"
        by simp
      then have "sum_expenses today xs ?ct (t + amount e) = Inl KeyError"
        by (rule Cons.IH)
      with True Some show ?thesis by (simp add: sum_expenses_add del: sum_expenses.simps)
    qed
  qed
qed

lemma print_categories_lines:
  "set cs \<subseteq> dom ct \<Longrightarrow> print_categories ct cs = Inr (map (\<lambda>c. (c, the (ct c))) cs)"
  by (induction cs) auto

text \<open>
  C3, as the code has it. For the empty collection \<open>view_monthly_report\<close> prints "No
  expenses recorded yet." and no totals. For a collection that is not empty, in which
  every record of the reference month has a category of \<open>CATEGORIES\<close>, it prints the
  grand total and one line for every category of \<open>CATEGORIES\<close>, in the order of
  \<open>CATEGORIES\<close>. The total of a category is the sum, taken from 0 in list order, of
  the amounts of the records of that category whose creation date has the month and the
  year of the reference date, so it is 0 for a category without such a record; the grand
  total is the sum of the amounts of all records of that month and year. A record of the
  reference month with a category outside \<open>CATEGORIES\<close> makes the report raise
  \<^verbatim>\<open>KeyError\<close>.
\<close>

theorem view_monthly_report_totals:
  "view_monthly_report today ([] :: 'a::{zero,plus} expense list) = Inr No_expenses_recorded \<and>
   (tracked_expense \<noteq> [] \<and>
    (\<forall>e\<in>set tracked_expense. same_month today e \<longrightarrow> category e \<in> set CATEGORIES) \<longrightarrow>
      view_monthly_report today tracked_expense =
        Inr (Expense_report
               \<lparr>report_month = month today, report_year = year today,
                report_total =
                  foldl (+) 0 (map amount (filter (same_month today) tracked_expense)),
                category_lines =
                  map (\<lambda>c. (c, foldl (+) (0 :: 'a)
                                  (map amount
                                     (filter (\<lambda>e. same_month today e \<and> category e = c)
                                        tracked_expense))))
                    CATEGORIES\<rparr>)) \<and>
   (tracked_expense \<noteq> [] \<and>
    (\<exists>e\<in>set tracked_expense. same_month today e \<and> category e \<notin> set CATEGORIES) \<longrightarrow>
      view_monthly_report today tracked_expense = Inl KeyError)"
proof (intro conjI impI)
  show "view_monthly_report today ([] :: 'a expense list) = Inr No_expenses_recorded"
    by (simp add: view_monthly_report_def)
next
  let ?init = "map_of (map (\<lambda>c. (c, 0 :: 'a)) CATEGORIES)"
  have dom0: "dom ?init = set CATEGORIES"
    by (simp add: dom_map_of_conv_image_fst image_image)
  assume a: "tracked_expense \<noteq> [] \<and>
    (\<forall>e\<in>set tracked_expense. same_month today e \<longrightarrow> category e \<in> set CATEGORIES)"
  let ?ct = "\<lambda>c. map_option
                  (\<lambda>v. foldl (+) v (map amount (filter (\<lambda>e. same_month today e \<and> category e = c) tracked_expense)))
                  (?init c)"
  have s: "sum_expenses today tracked_expense ?init 0 =
       Inr (?ct, foldl (+) 0 (map amount (filter (same_month today) tracked_expense)))"
    using a dom0 by (intro sum_expenses_totals) simp
  have v0: "?init c = Some 0" if "c \<in> set CATEGORIES" for c
    using that by (simp add: map_of_map_restrict)
  have "set CATEGORIES \<subseteq> dom ?ct"
    using dom0 by (auto simp: dom_def)
  then have "print_categories ?ct CATEGORIES = Inr (map (\<lambda>c. (c, the (?ct c))) CATEGORIES)"
    by (rule print_categories_lines)
  also have "map (\<lambda>c. (c, the (?ct c))) CATEGORIES =
      map (\<lambda>c. (c, foldl (+) (0 :: 'a)
                      (map amount (filter (\<lambda>e. same_month today e \<and> category e = c) tracked_expense))))
        CATEGORIES"
    by (rule map_cong) (simp_all add: v0)
  finally have p: "print_categories ?ct CATEGORIES =
      Inr (map (\<lambda>c. (c, foldl (+) (0 :: 'a)
                      (map amount (filter (\<lambda>e. same_month today e \<and> category e = c) tracked_expense))))
        CATEGORIES)" .
  show "view_monthly_report today tracked_expense =
        Inr (Expense_report
               \<lparr>report_month = month today, report_year = year today,
                report_total =
                  foldl (+) 0 (map amount (filter (same_month today) tracked_expense)),
                category_lines =
                  map (\<lambda>c. (c, foldl (+) (0 :: 'a)
                                  (map amount
                                     (filter (\<lambda>e. same_month today e \<and> category e = c)
                                        tracked_expense))))
                    CATEGORIES\<rparr>)"
    using a by (simp add: view_monthly_report_def s p)
next
  let ?init = "map_of (map (\<lambda>c. (c, 0 :: 'a)) CATEGORIES)"
  have dom0: "dom ?init = set CATEGORIES"
    by (simp add: dom_map_of_conv_image_fst image_image)
  assume a: "tracked_expense \<noteq> [] \<and>
    (\<exists>e\<in>set tracked_expense. same_month today e \<and> category e \<notin> set CATEGORIES)"
  then have "sum_expenses today tracked_expense ?init 0 = Inl KeyError"
    using dom0 by (intro sum_expenses_key_error) simp
  with a show "view_monthly_report today tracked_expense = Inl KeyError"
    by (simp add: view_monthly_report_def)
qed

theorem view_monthly_report_totals_witness:
  "view_monthly_report \<lparr>year = 2026, month = 2, day = 25\<rparr>
     [\<lparr>e_id = 1, e_name = lit ''lunch'', amount = 10 :: int, category = lit ''Food'',
       e_created_on = \<lparr>year = 2026, month = 2, day = 3\<rparr>, e_notes = []\<rparr>,
      \<lparr>e_id = 2, e_name = lit ''dinner'', amount = 5, category = lit ''Food'',
       e_created_on = \<lparr>year = 2026, month = 1, day = 30\<rparr>, e_notes = []\<rparr>,
      \<lparr>e_id = 3, e_name = lit ''rent'', amount = 20, category = lit ''Housing'',
       e_created_on = \<lparr>year = 2026, month = 2, day = 1\<rparr>, e_notes = []\<rparr>]
   = Inr (Expense_report
            \<lparr>report_month = 2, report_year = 2026, report_total = 30,
             category_lines =
               [(lit ''Housing'', 20), (lit ''Food'', 10), (lit ''Transportation'', 0),
                (lit ''Utilities'', 0), (lit ''Healthcare'', 0), (lit ''Savings'', 0),
                (lit ''Debt'', 0), (lit ''Shopping'', 0), (lit ''Entertainment'', 0)]\<rparr>)"
  using view_monthly_report_totals
    [of "\<lparr>year = 2026, month = 2, day = 25\<rparr>"
        "[\<lparr>e_id = 1, e_name = lit ''lunch'', amount = 10 :: int, category = lit ''Food'',
           e_created_on = \<lparr>year = 2026, month = 2, day = 3\<rparr>, e_notes = []\<rparr>,
          \<lparr>e_id = 2, e_name = lit ''dinner'', amount = 5, category = lit ''Food'',
           e_created_on = \<lparr>year = 2026, month = 1, day = 30\<rparr>, e_notes = []\<rparr>,
          \<lparr>e_id = 3, e_name = lit ''rent'', amount = 20, category = lit ''Housing'',
           e_created_on = \<lparr>year = 2026, month = 2, day = 1\<rparr>, e_notes = []\<rparr>]"]
  by (simp add: same_month_def CATEGORIES_def lit_def)

text \<open>For the empty collection there is no total for any category.\<close>

theorem view_monthly_report_empty_counterexample:
  "view_monthly_report \<lparr>year = 2026, month = 2, day = 25\<rparr> ([] :: int expense list)
     = Inr No_expenses_recorded"
  by (simp add: view_monthly_report_def)

subsection \<open>The reference date of the report\<close>

lemma sum_expenses_clock_month:
  assumes m: "month today = month today'" and y: "year today = year today'"
  shows "sum_expenses today xs ct t = sum_expenses today' xs ct t"
proof (induction xs arbitrary: ct t)
  case Nil
  show ?case by simp
next
  case (Cons e xs)
  show ?case
    by (simp only: sum_expenses.simps m y Cons.IH)
qed

text \<open>
  C8, as the code has it. \<open>view_monthly_report\<close> takes the collection alone from its
  caller and reads the reference date from the system clock. The report is determined
  by the collection and by the month and the year of the clock's date: two runs on the
  same collection whose clock dates lie in the same month of the same year print the
  same category totals and the same grand total.
\<close>

theorem report_reads_clock_month:
  "month today = month today' \<and> year today = year today' \<longrightarrow>
     view_monthly_report today tracked_expense = view_monthly_report today' tracked_expense"
proof
  assume a: "month today = month today' \<and> year today = year today'"
  then have m: "month today = month today'" and y: "year today = year today'"
    by simp_all
  show "view_monthly_report today tracked_expense = view_monthly_report today' tracked_expense"
    by (simp only: view_monthly_report_def sum_expenses_clock_month [OF m y] m y)
qed

theorem report_reads_clock_month_witness:
  "view_monthly_report \<lparr>year = 2026, month = 2, day = 25\<rparr>
     [\<lparr>e_id = 1, e_name = lit ''lunch'', amount = 10 :: int, category = lit ''Food'',
       e_created_on = \<lparr>year = 2026, month = 2, day = 3\<rparr>, e_notes = []\<rparr>]
   = view_monthly_report \<lparr>year = 2026, month = 2, day = 26\<rparr>
     [\<lparr>e_id = 1, e_name = lit ''lunch'', amount = 10 :: int, category = lit ''Food'',
       e_created_on = \<lparr>year = 2026, month = 2, day = 3\<rparr>, e_notes = []\<rparr>]"
  using report_reads_clock_month
    [of "\<lparr>year = 2026, month = 2, day = 25\<rparr>" "\<lparr>year = 2026, month = 2, day = 26\<rparr>"
        "[\<lparr>e_id = 1, e_name = lit ''lunch'', amount = 10 :: int, category = lit ''Food'',
           e_created_on = \<lparr>year = 2026, month = 2, day = 3\<rparr>, e_notes = []\<rparr>]"]
  by simp

text \<open>
  The same collection gives different reports on the last day of February and on the
  first day of March: the caller's argument does not determine the result.
\<close>

theorem report_reads_clock_counterexample:
  "view_monthly_report \<lparr>year = 2026, month = 2, day = 28\<rparr>
     [\<lparr>e_id = 1, e_name = lit ''lunch'', amount = 10 :: int, category = lit ''Food'',
       e_created_on = \<lparr>year = 2026, month = 2, day = 3\<rparr>, e_notes = []\<rparr>]
   \<noteq> view_monthly_report \<lparr>year = 2026, month = 3, day = 1\<rparr>
     [\<lparr>e_id = 1, e_name = lit ''lunch'', amount = 10 :: int, category = lit ''Food'',
       e_created_on = \<lparr>year = 2026, month = 2, day = 3\<rparr>, e_notes = []\<rparr>]"
  by (simp add: view_monthly_report_def CATEGORIES_def lit_def)


subsection \<open>The next id\<close>

lemma max_from_mem: "max_from m xs \<in> insert m (set xs)"
  by (induction xs arbitrary: m) auto

lemma max_from_upper: "x \<in> insert m (set xs) \<Longrightarrow> x \<le> max_from m xs"
proof (induction xs arbitrary: m x)
  case Nil
  then show ?case by simp
next
  case (Cons a xs)
  let ?m = "if m < a then a else m"
  have up: "y \<le> max_from ?m xs" if "y \<in> insert ?m (set xs)" for y
    using that by (rule Cons.IH)
  have top: "?m \<le> max_from ?m xs"
    by (rule up) simp
  from Cons.prems have "x = m \<or> x = a \<or> x \<in> set xs"
    by auto
  then have "x \<le> max_from ?m xs"
  proof (elim disjE)
    assume "x = m"
    then have "x \<le> ?m" by simp
    then show ?thesis using top by (rule order_trans)
  next
    assume "x = a"
    then have "x \<le> ?m" by simp
    then show ?thesis using top by (rule order_trans)
  next
    assume "x \<in> set xs"
    then show ?thesis by (intro up) simp
  qed
  then show ?case by simp
qed

lemma max_from_Max: "max_from m xs = Max (insert m (set xs))"
proof (rule sym, rule Max_eqI)
  show "finite (insert m (set xs))" by simp
  show "y \<le> max_from m xs" if "y \<in> insert m (set xs)" for y
    using that by (rule max_from_upper)
  show "max_from m xs \<in> insert m (set xs)" by (rule max_from_mem)
qed

lemma get_next_id_Max:
  "tracked \<noteq> [] \<Longrightarrow> get_next_id tracked = Max (e_id ` set tracked) + 1"
  by (cases tracked) (simp_all add: get_next_id_def max_from_Max)

lemma get_next_id_habit_Max:
  "tracked \<noteq> [] \<Longrightarrow> get_next_id_habit tracked = Max (h_id ` set tracked) + 1"
  by (cases tracked) (simp_all add: get_next_id_habit_def max_from_Max)

lemma get_next_id_fresh: "e \<in> set tracked \<Longrightarrow> e_id e < get_next_id tracked"
proof -
  assume e: "e \<in> set tracked"
  then have "tracked \<noteq> []" by auto
  moreover have "e_id e \<le> Max (e_id ` set tracked)"
    using e by simp
  ultimately show ?thesis by (simp add: get_next_id_Max)
qed

lemma get_next_id_habit_fresh: "h \<in> set tracked \<Longrightarrow> h_id h < get_next_id_habit tracked"
proof -
  assume h: "h \<in> set tracked"
  then have "tracked \<noteq> []" by auto
  moreover have "h_id h \<le> Max (h_id ` set tracked)"
    using h by simp
  ultimately show ?thesis by (simp add: get_next_id_habit_Max)
qed

lemma Max_with_greater:
  fixes n :: int
  assumes "finite A" and "\<forall>a\<in>A. a < n"
  shows "Max (insert n A) = n"
  using assms by (intro Max_eqI) auto

lemma get_next_id_after_insert:
  "e_id e = get_next_id tracked \<Longrightarrow> get_next_id (tracked @ [e]) = get_next_id tracked + 1"
proof -
  assume e: "e_id e = get_next_id tracked"
  have "\<forall>a\<in>e_id ` set tracked. a < get_next_id tracked"
    by (auto simp: get_next_id_fresh)
  then have "Max (insert (get_next_id tracked) (e_id ` set tracked)) = get_next_id tracked"
    by (intro Max_with_greater) simp_all
  then show ?thesis
    using e by (simp add: get_next_id_Max)
qed

lemma get_next_id_habit_after_insert:
  "h_id h = get_next_id_habit tracked \<Longrightarrow>
     get_next_id_habit (tracked @ [h]) = get_next_id_habit tracked + 1"
proof -
  assume h: "h_id h = get_next_id_habit tracked"
  have "\<forall>a\<in>h_id ` set tracked. a < get_next_id_habit tracked"
    by (auto simp: get_next_id_habit_fresh)
  then have "Max (insert (get_next_id_habit tracked) (h_id ` set tracked)) = get_next_id_habit tracked"
    by (intro Max_with_greater) simp_all
  then show ?thesis
    using h by (simp add: get_next_id_habit_Max)
qed

lemma Max_image_remove1:
  fixes f :: "'a \<Rightarrow> int"
  assumes "x \<in> set xs" and "f x \<noteq> Max (f ` set xs)"
  shows "remove1 x xs \<noteq> [] \<and> Max (f ` set (remove1 x xs)) = Max (f ` set xs)"
proof -
  from assms(1) have ne: "f ` set xs \<noteq> {}" by auto
  then have "Max (f ` set xs) \<in> f ` set xs"
    by (intro Max_in) simp_all
  then obtain m where m: "m \<in> set xs" "f m = Max (f ` set xs)"
    by auto
  with assms(2) have "m \<noteq> x" by auto
  with m(1) have m': "m \<in> set (remove1 x xs)"
    by simp
  then have 1: "remove1 x xs \<noteq> []" by auto
  have "Max (f ` set (remove1 x xs)) = Max (f ` set xs)"
  proof (rule Max_eqI)
    show "finite (f ` set (remove1 x xs))" by simp
    show "y \<le> Max (f ` set xs)" if "y \<in> f ` set (remove1 x xs)" for y
    proof -
      from that have "y \<in> f ` set xs"
        using set_remove1_subset [of x xs] by auto
      then show ?thesis by simp
    qed
    show "Max (f ` set xs) \<in> f ` set (remove1 x xs)"
      using m' m(2) by force
  qed
  with 1 show ?thesis by simp
qed

lemma get_next_id_after_delete:
  assumes "e \<in> set tracked" and "get_next_id tracked \<noteq> e_id e + 1"
  shows "get_next_id (remove1 e tracked) = get_next_id tracked"
proof -
  from assms(1) have ne: "tracked \<noteq> []" by auto
  with assms(2) have "e_id e \<noteq> Max (e_id ` set tracked)"
    by (simp add: get_next_id_Max)
  with assms(1) have "remove1 e tracked \<noteq> [] \<and>
      Max (e_id ` set (remove1 e tracked)) = Max (e_id ` set tracked)"
    by (rule Max_image_remove1)
  with ne show ?thesis by (simp add: get_next_id_Max)
qed

lemma get_next_id_habit_after_delete:
  assumes "h \<in> set tracked" and "get_next_id_habit tracked \<noteq> h_id h + 1"
  shows "get_next_id_habit (remove1 h tracked) = get_next_id_habit tracked"
proof -
  from assms(1) have ne: "tracked \<noteq> []" by auto
  with assms(2) have "h_id h \<noteq> Max (h_id ` set tracked)"
    by (simp add: get_next_id_habit_Max)
  with assms(1) have "remove1 h tracked \<noteq> [] \<and>
      Max (h_id ` set (remove1 h tracked)) = Max (h_id ` set tracked)"
    by (rule Max_image_remove1)
  with ne show ?thesis by (simp add: get_next_id_habit_Max)
qed

lemma delete_expense_loop_result:
  "delete_expense_loop rest tracked i d = (r, tracked', d') \<Longrightarrow>
     (r = None \<and> tracked' = tracked) \<or>
     (\<exists>e\<in>set rest. r = Some e \<and> e_id e = i \<and> tracked' = remove1 e tracked)"
proof (induction rest)
  case Nil
  then show ?case by simp
next
  case (Cons a rest)
  then show ?case
    by (cases "e_id a = i") (auto simp: Let_def)
qed

lemma delete_habit_loop_result:
  "delete_habit_loop rest tracked i d = (r, tracked', d') \<Longrightarrow>
     (r = None \<and> tracked' = tracked) \<or>
     (\<exists>h\<in>set rest. r = Some h \<and> h_id h = i \<and> tracked' = remove1 h tracked)"
proof (induction rest)
  case Nil
  then show ?case by simp
next
  case (Cons a rest)
  then show ?case
    by (cases "h_id a = i") (auto simp: Let_def)
qed


subsection \<open>Sessions of inserts and deletes\<close>

lemma add_expense_list:
  "fst (add_expense today n a c tracked d) =
     tracked @ [\<lparr>e_id = get_next_id tracked, e_name = n, amount = a, category = c,
                 e_created_on = today, e_notes = []\<rparr>]"
  by (simp add: add_expense_def Let_def)

lemma add_habit_list:
  "fst (add_habit today typed tracked d) =
     tracked @ [\<lparr>h_id = get_next_id_habit tracked, h_name = strip typed,
                 h_created_on = today, completed_dates = []\<rparr>]"
  by (simp add: add_habit_def Let_def)

lemma delete_expense_result:
  "(fst (delete_expense tracked i d) = None \<and> fst (snd (delete_expense tracked i d)) = tracked) \<or>
   (\<exists>e\<in>set tracked. fst (delete_expense tracked i d) = Some e \<and> e_id e = i \<and>
        fst (snd (delete_expense tracked i d)) = remove1 e tracked)"
  using delete_expense_loop_result
    [of tracked tracked i d "fst (delete_expense tracked i d)"
        "fst (snd (delete_expense tracked i d))" "snd (snd (delete_expense tracked i d))"]
  by (simp add: delete_expense_def)

lemma delete_habit_result:
  "(fst (delete_habit tracked i d) = None \<and> fst (snd (delete_habit tracked i d)) = tracked) \<or>
   (\<exists>h\<in>set tracked. fst (delete_habit tracked i d) = Some h \<and> h_id h = i \<and>
        fst (snd (delete_habit tracked i d)) = remove1 h tracked)"
  using delete_habit_loop_result
    [of tracked tracked i d "fst (delete_habit tracked i d)"
        "fst (snd (delete_habit tracked i d))" "snd (snd (delete_habit tracked i d))"]
  by (simp add: delete_habit_def)

lemma run_expense_ops_increasing:
  "spares_greatest_expense ops tracked d \<Longrightarrow>
     (\<forall>j\<in>set (assigned (run_expense_ops ops tracked d)). get_next_id tracked \<le> j) \<and>
     sorted_wrt (<) (assigned (run_expense_ops ops tracked d)) \<and>
     no_reuse (run_expense_ops ops tracked d)"
proof (induction ops arbitrary: tracked d)
  case Nil
  show ?case by simp
next
  case (Cons op ops)
  show ?case
  proof (cases op)
    case (Insert_expense today n a c)
    let ?new = "\<lparr>e_id = get_next_id tracked, e_name = n, amount = a, category = c,
                  e_created_on = today, e_notes = []\<rparr>"
    let ?t = "fst (add_expense today n a c tracked d)"
    let ?d = "snd (add_expense today n a c tracked d)"
    have t: "?t = tracked @ [?new]" by (rule add_expense_list)
    have nxt: "get_next_id ?t = get_next_id tracked + 1"
      unfolding t by (rule get_next_id_after_insert) simp
    from Cons.prems Insert_expense have "spares_greatest_expense ops ?t ?d" by simp
    then have ih: "(\<forall>j\<in>set (assigned (run_expense_ops ops ?t ?d)). get_next_id ?t \<le> j) \<and>
        sorted_wrt (<) (assigned (run_expense_ops ops ?t ?d)) \<and>
        no_reuse (run_expense_ops ops ?t ?d)"
      by (rule Cons.IH)
    have run: "run_expense_ops (op # ops) tracked d =
        Assigned (get_next_id tracked) # run_expense_ops ops ?t ?d"
      unfolding Insert_expense run_expense_ops.simps t by simp
    show ?thesis
      unfolding run using ih nxt by auto
  next
    case (Remove_expense i)
    let ?r = "fst (delete_expense tracked i d)"
    let ?t = "fst (snd (delete_expense tracked i d))"
    let ?d = "snd (snd (delete_expense tracked i d))"
    from Cons.prems Remove_expense
    have safe: "\<not> (tracked \<noteq> [] \<and> get_next_id tracked = i + 1)"
      and rest: "spares_greatest_expense ops ?t ?d"
      by simp_all
    from rest have ih: "(\<forall>j\<in>set (assigned (run_expense_ops ops ?t ?d)). get_next_id ?t \<le> j) \<and>
        sorted_wrt (<) (assigned (run_expense_ops ops ?t ?d)) \<and>
        no_reuse (run_expense_ops ops ?t ?d)"
      by (rule Cons.IH)
    from delete_expense_result [of tracked i d]
    show ?thesis
    proof (elim disjE conjE bexE)
      assume r: "?r = None" and t: "?t = tracked"
      have run: "run_expense_ops (op # ops) tracked d = run_expense_ops ops ?t ?d"
        unfolding Remove_expense run_expense_ops.simps using r
        by (cases "delete_expense tracked i d") auto
      show ?thesis
        unfolding run using ih t by simp
    next
      fix e
      assume e: "e \<in> set tracked" and r: "?r = Some e" and i: "e_id e = i"
        and t: "?t = remove1 e tracked"
      have run: "run_expense_ops (op # ops) tracked d = Freed i # run_expense_ops ops ?t ?d"
        unfolding Remove_expense run_expense_ops.simps using r i
        by (cases "delete_expense tracked i d") auto
      from e safe i have "get_next_id tracked \<noteq> e_id e + 1" by auto
      with e have nxt: "get_next_id ?t = get_next_id tracked"
        unfolding t by (rule get_next_id_after_delete)
      from e i have "i < get_next_id tracked"
        using get_next_id_fresh by blast
      with ih nxt have "i \<notin> set (assigned (run_expense_ops ops ?t ?d))"
        by force
      with ih nxt show ?thesis
        unfolding run by simp
    qed
  qed
qed

lemma run_habit_ops_increasing:
  "spares_greatest_habit ops tracked d \<Longrightarrow>
     (\<forall>j\<in>set (assigned (run_habit_ops ops tracked d)). get_next_id_habit tracked \<le> j) \<and>
     sorted_wrt (<) (assigned (run_habit_ops ops tracked d)) \<and>
     no_reuse (run_habit_ops ops tracked d)"
proof (induction ops arbitrary: tracked d)
  case Nil
  show ?case by simp
next
  case (Cons op ops)
  show ?case
  proof (cases op)
    case (Insert_habit today typed)
    let ?new = "\<lparr>h_id = get_next_id_habit tracked, h_name = strip typed,
                  h_created_on = today, completed_dates = []\<rparr>"
    let ?t = "fst (add_habit today typed tracked d)"
    let ?d = "snd (add_habit today typed tracked d)"
    have t: "?t = tracked @ [?new]" by (rule add_habit_list)
    have nxt: "get_next_id_habit ?t = get_next_id_habit tracked + 1"
      unfolding t by (rule get_next_id_habit_after_insert) simp
    from Cons.prems Insert_habit have "spares_greatest_habit ops ?t ?d" by simp
    then have ih: "(\<forall>j\<in>set (assigned (run_habit_ops ops ?t ?d)). get_next_id_habit ?t \<le> j) \<and>
        sorted_wrt (<) (assigned (run_habit_ops ops ?t ?d)) \<and>
        no_reuse (run_habit_ops ops ?t ?d)"
      by (rule Cons.IH)
    have run: "run_habit_ops (op # ops) tracked d =
        Assigned (get_next_id_habit tracked) # run_habit_ops ops ?t ?d"
      unfolding Insert_habit run_habit_ops.simps t by simp
    show ?thesis
      unfolding run using ih nxt by auto
  next
    case (Remove_habit i)
    let ?r = "fst (delete_habit tracked i d)"
    let ?t = "fst (snd (delete_habit tracked i d))"
    let ?d = "snd (snd (delete_habit tracked i d))"
    from Cons.prems Remove_habit
    have safe: "\<not> (tracked \<noteq> [] \<and> get_next_id_habit tracked = i + 1)"
      and rest: "spares_greatest_habit ops ?t ?d"
      by simp_all
    from rest have ih: "(\<forall>j\<in>set (assigned (run_habit_ops ops ?t ?d)). get_next_id_habit ?t \<le> j) \<and>
        sorted_wrt (<) (assigned (run_habit_ops ops ?t ?d)) \<and>
        no_reuse (run_habit_ops ops ?t ?d)"
      by (rule Cons.IH)
    from delete_habit_result [of tracked i d]
    show ?thesis
    proof (elim disjE conjE bexE)
      assume r: "?r = None" and t: "?t = tracked"
      have run: "run_habit_ops (op # ops) tracked d = run_habit_ops ops ?t ?d"
        unfolding Remove_habit run_habit_ops.simps using r
        by (cases "delete_habit tracked i d") auto
      show ?thesis
        unfolding run using ih t by simp
    next
      fix e
      assume e: "e \<in> set tracked" and r: "?r = Some e" and i: "h_id e = i"
        and t: "?t = remove1 e tracked"
      have run: "run_habit_ops (op # ops) tracked d = Freed i # run_habit_ops ops ?t ?d"
        unfolding Remove_habit run_habit_ops.simps using r i
        by (cases "delete_habit tracked i d") auto
      from e safe i have "get_next_id_habit tracked \<noteq> h_id e + 1" by auto
      with e have nxt: "get_next_id_habit ?t = get_next_id_habit tracked"
        unfolding t by (rule get_next_id_habit_after_delete)
      from e i have "i < get_next_id_habit tracked"
        using get_next_id_habit_fresh by blast
      with ih nxt have "i \<notin> set (assigned (run_habit_ops ops ?t ?d))"
        by force
      with ih nxt show ?thesis
        unfolding run by simp
    qed
  qed
qed

text \<open>
  C1, as the code has it. \<open>get_next_id\<close> returns 1 for the empty list and otherwise the
  greatest id in the list plus 1, computed from the list it is given on each call. The
  id given to an insert is therefore greater than every id in the list at that moment.
  In a session of inserts and deletes in which no delete removes the record that holds
  the greatest id of the moment, the ids given to successive inserts increase strictly
  and no id freed by a delete is given again.
\<close>

theorem get_next_id_sessions:
  "get_next_id ([] :: 'a expense list) = 1 \<and> get_next_id_habit [] = 1 \<and>
   (tracked_expense \<noteq> [] \<longrightarrow>
      get_next_id tracked_expense = Max (e_id ` set tracked_expense) + 1) \<and>
   (tracked_habits \<noteq> [] \<longrightarrow>
      get_next_id_habit tracked_habits = Max (h_id ` set tracked_habits) + 1) \<and>
   (\<forall>e\<in>set tracked_expense. e_id e < get_next_id tracked_expense) \<and>
   (\<forall>h\<in>set tracked_habits. h_id h < get_next_id_habit tracked_habits) \<and>
   (spares_greatest_expense ops (tracked_expense :: 'a expense list) d \<longrightarrow>
      sorted_wrt (<) (assigned (run_expense_ops ops tracked_expense d)) \<and>
      no_reuse (run_expense_ops ops tracked_expense d)) \<and>
   (spares_greatest_habit hops tracked_habits dh \<longrightarrow>
      sorted_wrt (<) (assigned (run_habit_ops hops tracked_habits dh)) \<and>
      no_reuse (run_habit_ops hops tracked_habits dh))"
proof (intro conjI impI ballI)
  show "get_next_id ([] :: 'a expense list) = 1"
    by (simp add: get_next_id_def)
  show "get_next_id_habit [] = 1"
    by (simp add: get_next_id_habit_def)
next
  assume "tracked_expense \<noteq> []"
  then show "get_next_id tracked_expense = Max (e_id ` set tracked_expense) + 1"
    by (rule get_next_id_Max)
next
  assume "tracked_habits \<noteq> []"
  then show "get_next_id_habit tracked_habits = Max (h_id ` set tracked_habits) + 1"
    by (rule get_next_id_habit_Max)
next
  fix e assume "e \<in> set tracked_expense"
  then show "e_id e < get_next_id tracked_expense"
    by (rule get_next_id_fresh)
next
  fix h assume "h \<in> set tracked_habits"
  then show "h_id h < get_next_id_habit tracked_habits"
    by (rule get_next_id_habit_fresh)
next
  assume "spares_greatest_expense ops tracked_expense d"
  then show "sorted_wrt (<) (assigned (run_expense_ops ops tracked_expense d))"
    and "no_reuse (run_expense_ops ops tracked_expense d)"
    using run_expense_ops_increasing [of ops tracked_expense d] by simp_all
next
  assume "spares_greatest_habit hops tracked_habits dh"
  then show "sorted_wrt (<) (assigned (run_habit_ops hops tracked_habits dh))"
    and "no_reuse (run_habit_ops hops tracked_habits dh)"
    using run_habit_ops_increasing [of hops tracked_habits dh] by simp_all
qed

theorem get_next_id_sessions_witness:
  "run_expense_ops
     [Insert_expense \<lparr>year = 2026, month = 2, day = 25\<rparr> (lit ''a'') (10 :: int) (lit ''Food''),
      Insert_expense \<lparr>year = 2026, month = 2, day = 25\<rparr> (lit ''b'') 10 (lit ''Food''),
      Remove_expense 1,
      Insert_expense \<lparr>year = 2026, month = 2, day = 25\<rparr> (lit ''c'') 10 (lit ''Food'')]
     [] \<lparr>content = [], writes = 0\<rparr>
     = [Assigned 1, Assigned 2, Freed 1, Assigned 3] \<and>
   run_habit_ops
     [Remove_habit 5, Insert_habit \<lparr>year = 2026, month = 2, day = 25\<rparr> (lit ''walk'')]
     [\<lparr>h_id = 5, h_name = lit ''run'', h_created_on = \<lparr>year = 2026, month = 2, day = 1\<rparr>,
       completed_dates = ([] :: str list)\<rparr>,
      \<lparr>h_id = 9, h_name = lit ''read'', h_created_on = \<lparr>year = 2026, month = 2, day = 1\<rparr>,
       completed_dates = []\<rparr>]
     \<lparr>content = [], writes = 0\<rparr>
     = [Freed 5, Assigned 10] \<and>
   get_next_id
     [\<lparr>e_id = 7, e_name = lit ''a'', amount = 10 :: int, category = lit ''Food'',
       e_created_on = \<lparr>year = 2026, month = 2, day = 25\<rparr>, e_notes = []\<rparr>,
      \<lparr>e_id = 4, e_name = lit ''b'', amount = 10, category = lit ''Food'',
       e_created_on = \<lparr>year = 2026, month = 2, day = 25\<rparr>, e_notes = []\<rparr>] = 8"
proof -
  let ?T = "\<lparr>year = 2026, month = 2, day = 25\<rparr>"
  let ?D = "\<lparr>content = [], writes = 0\<rparr>"
  let ?ops = "[Insert_expense ?T (lit ''a'') (10 :: int) (lit ''Food''),
      Insert_expense ?T (lit ''b'') 10 (lit ''Food''),
      Remove_expense 1,
      Insert_expense ?T (lit ''c'') 10 (lit ''Food'')]"
  let ?hops = "[Remove_habit 5, Insert_habit ?T (lit ''walk'')]"
  let ?hs = "[\<lparr>h_id = 5, h_name = lit ''run'', h_created_on = \<lparr>year = 2026, month = 2, day = 1\<rparr>,
       completed_dates = ([] :: str list)\<rparr>,
      \<lparr>h_id = 9, h_name = lit ''read'', h_created_on = \<lparr>year = 2026, month = 2, day = 1\<rparr>,
       completed_dates = []\<rparr>]"
  let ?es = "[\<lparr>e_id = 7, e_name = lit ''a'', amount = 10 :: int, category = lit ''Food'',
       e_created_on = ?T, e_notes = []\<rparr>,
      \<lparr>e_id = 4, e_name = lit ''b'', amount = 10, category = lit ''Food'',
       e_created_on = ?T, e_notes = []\<rparr>]"
  have r: "run_expense_ops ?ops [] ?D = [Assigned 1, Assigned 2, Freed 1, Assigned 3]"
    by (simp add: add_expense_def delete_expense_def get_next_id_def save_to_expense_def Let_def)
  have s: "spares_greatest_expense ?ops [] ?D"
    by (simp add: add_expense_def delete_expense_def get_next_id_def save_to_expense_def Let_def)
  have rh: "run_habit_ops ?hops ?hs ?D = [Freed 5, Assigned 10]"
    by (simp add: add_habit_def delete_habit_def get_next_id_habit_def save_habits_def Let_def)
  have sh: "spares_greatest_habit ?hops ?hs ?D"
    by (simp add: add_habit_def delete_habit_def get_next_id_habit_def save_habits_def Let_def)
  have "sorted_wrt (<) (assigned (run_expense_ops ?ops [] ?D)) \<and>
        no_reuse (run_expense_ops ?ops [] ?D) \<and>
        sorted_wrt (<) (assigned (run_habit_ops ?hops ?hs ?D)) \<and>
        no_reuse (run_habit_ops ?hops ?hs ?D)"
    using s sh get_next_id_sessions [where 'b = str and 'c = str, of "[]" ?hs ?ops ?D ?hops ?D] by simp
  moreover have "get_next_id ?es = Max (e_id ` set ?es) + 1 \<and> (\<forall>e\<in>set ?es. e_id e < get_next_id ?es)"
    using get_next_id_sessions [where 'b = str and 'c = str, of ?es ?hs "[]" ?D "[]" ?D] by simp
  then have "get_next_id ?es = 8"
    by simp
  ultimately show ?thesis
    using r rh by simp
qed

text \<open>
  Insert, insert, delete the record with id 2, insert: the third insert is given the id
  2 again, so the ids given are not strictly increasing, and the freed id is reused.
\<close>

theorem get_next_id_reuse_counterexample:
  "run_expense_ops
     [Insert_expense \<lparr>year = 2026, month = 2, day = 25\<rparr> (lit ''a'') (10 :: int) (lit ''Food''),
      Insert_expense \<lparr>year = 2026, month = 2, day = 25\<rparr> (lit ''b'') 10 (lit ''Food''),
      Remove_expense 2,
      Insert_expense \<lparr>year = 2026, month = 2, day = 25\<rparr> (lit ''c'') 10 (lit ''Food'')]
     [] \<lparr>content = [], writes = 0\<rparr>
     = [Assigned 1, Assigned 2, Freed 2, Assigned 2] \<and>
   \<not> sorted_wrt (<) (assigned [Assigned 1, Assigned 2, Freed 2, Assigned 2]) \<and>
   \<not> no_reuse [Assigned 1, Assigned 2, Freed 2, Assigned 2]"
  by (simp add: add_expense_def delete_expense_def get_next_id_def save_to_expense_def Let_def)


subsection \<open>The calendar\<close>

text \<open>
  The day before a valid date is a valid date whose ordinal is one less, across the ends
  of months and years; and two valid dates with the same ordinal are the same date.
\<close>

lemma month_cases:
  fixes m :: int
  assumes "1 \<le> m" and "m \<le> 12"
  shows "m = 1 \<or> m = 2 \<or> m = 3 \<or> m = 4 \<or> m = 5 \<or> m = 6 \<or> m = 7 \<or> m = 8 \<or> m = 9 \<or>
         m = 10 \<or> m = 11 \<or> m = 12"
  using assms by arith

lemma days_in_month_bounds: "28 \<le> days_in_month y m \<and> days_in_month y m \<le> 31"
  by (simp add: days_in_month_def)

lemma days_before_month_step:
  assumes "1 \<le> m" and "m < 12"
  shows "days_before_month y (m + 1) = days_before_month y m + days_in_month y m"
proof -
  from assms have "m = 1 \<or> m = 2 \<or> m = 3 \<or> m = 4 \<or> m = 5 \<or> m = 6 \<or> m = 7 \<or> m = 8 \<or>
      m = 9 \<or> m = 10 \<or> m = 11"
    by arith
  then show ?thesis
    by (elim disjE) (simp_all add: days_before_month_def days_in_month_def)
qed

lemma days_before_month_last:
  "days_before_month y 12 + days_in_month y 12 = 365 + (if is_leap y then 1 else 0)"
  by (simp add: days_before_month_def days_in_month_def)

lemma div_step:
  fixes y k :: int
  assumes k: "0 < k"
  shows "y div k = (y - 1) div k + (if y mod k = 0 then 1 else 0)"
proof -
  define q where "q = (y - 1) div k"
  define r where "r = (y - 1) mod k"
  have y: "y = k * q + (r + 1)"
    unfolding q_def r_def by (simp add: algebra_simps)
  have r: "0 \<le> r" "r < k"
    using k by (simp_all add: r_def)
  show ?thesis
  proof (cases "r + 1 = k")
    case True
    then have y': "y = k * (q + 1) + 0"
      using y by (simp add: algebra_simps)
    have "y div k = q + 1"
      using y' k by (intro int_div_pos_eq) simp_all
    moreover have "y mod k = 0"
      using y' k by (intro int_mod_pos_eq) simp_all
    ultimately show ?thesis
      by (simp add: q_def)
  next
    case False
    with r have lt: "r + 1 < k" by simp
    have "y div k = q"
      using y r lt by (intro int_div_pos_eq) simp_all
    moreover have "y mod k = r + 1"
      using y r lt by (intro int_mod_pos_eq) simp_all
    ultimately show ?thesis
      using r by (simp add: q_def)
  qed
qed

lemma mod_chain:
  fixes y :: int
  shows "y mod 100 = 0 \<Longrightarrow> y mod 4 = 0" and "y mod 400 = 0 \<Longrightarrow> y mod 100 = 0"
proof -
  assume "y mod 100 = 0"
  then have "100 dvd y" by (simp add: dvd_eq_mod_eq_0)
  moreover have "(4 :: int) dvd 100" by simp
  ultimately have "4 dvd y" by (rule dvd_trans [rotated])
  then show "y mod 4 = 0" by simp
next
  assume "y mod 400 = 0"
  then have "400 dvd y" by (simp add: dvd_eq_mod_eq_0)
  moreover have "(100 :: int) dvd 400" by simp
  ultimately have "100 dvd y" by (rule dvd_trans [rotated])
  then show "y mod 100 = 0" by simp
qed


lemma days_before_year_step:
  "days_before_year (y + 1) = days_before_year y + 365 + (if is_leap y then 1 else 0)"
proof -
  define a b c where "a = (y - 1) div 4" and "b = (y - 1) div 100" and "c = (y - 1) div 400"
  define e4 e100 e400 l :: int
    where "e4 = (if y mod 4 = 0 then 1 else 0)"
      and "e100 = (if y mod 100 = 0 then 1 else 0)"
      and "e400 = (if y mod 400 = 0 then 1 else 0)"
      and "l = (if is_leap y then 1 else 0)"
  have d4: "y div 4 = a + e4"
    using div_step [of 4 y] by (simp add: a_def e4_def)
  have d100: "y div 100 = b + e100"
    using div_step [of 100 y] by (simp add: b_def e100_def)
  have d400: "y div 400 = c + e400"
    using div_step [of 400 y] by (simp add: c_def e400_def)
  have next_year: "days_before_year (y + 1) = y * 365 + y div 4 - y div 100 + y div 400"
    by (simp add: days_before_year_def)
  have this_year: "days_before_year y = (y - 1) * 365 + a - b + c"
    by (simp add: days_before_year_def a_def b_def c_def)
  have leap: "e4 - e100 + e400 = l"
  proof (cases "y mod 4 = 0")
    case False
    have n100: "y mod 100 \<noteq> 0"
    proof
      assume "y mod 100 = 0"
      then have "y mod 4 = 0" by (rule mod_chain(1))
      with False show False by contradiction
    qed
    have n400: "y mod 400 \<noteq> 0"
    proof
      assume "y mod 400 = 0"
      then have "y mod 100 = 0" by (rule mod_chain(2))
      with n100 show False by contradiction
    qed
    from False n100 n400 show ?thesis
      unfolding e4_def e100_def e400_def l_def is_leap_def by simp
  next
    case m4: True
    show ?thesis
    proof (cases "y mod 100 = 0")
      case False
      have n400: "y mod 400 \<noteq> 0"
      proof
        assume "y mod 400 = 0"
        then have "y mod 100 = 0" by (rule mod_chain(2))
        with False show False by contradiction
      qed
      from m4 False n400 show ?thesis
        unfolding e4_def e100_def e400_def l_def is_leap_def by simp
    next
      case True
      with m4 show ?thesis
        unfolding e4_def e100_def e400_def l_def is_leap_def by simp
    qed
  qed
  have "days_before_year (y + 1) = days_before_year y + 365 + l"
    unfolding next_year this_year d4 d100 d400 using leap by arith
  then show ?thesis by (simp add: l_def)
qed


lemma minus_one_day_calendar:
  assumes v: "valid_date d" and p: "minus_one_day d = Inr previous"
  shows "valid_date previous \<and> toordinal previous = toordinal d - 1"
proof (cases "1 < day d")
  case True
  with p have "previous = d\<lparr>day := day d - 1\<rparr>"
    by (simp add: minus_one_day_def)
  with v True show ?thesis
    by (simp add: valid_date_def toordinal_def)
next
  case False
  with v have d1: "day d = 1"
    by (simp add: valid_date_def)
  show ?thesis
  proof (cases "1 < month d")
    case True
    with p d1 have prev: "previous = d\<lparr>month := month d - 1, day := days_in_month (year d) (month d - 1)\<rparr>"
      by (simp add: minus_one_day_def)
    from v True have "1 \<le> month d - 1" and "month d - 1 < 12"
      by (simp_all add: valid_date_def)
    then have "days_before_month (year d) (month d - 1 + 1) =
        days_before_month (year d) (month d - 1) + days_in_month (year d) (month d - 1)"
      by (rule days_before_month_step)
    then have step: "days_before_month (year d) (month d) =
        days_before_month (year d) (month d - 1) + days_in_month (year d) (month d - 1)"
      by simp
    have "valid_date previous"
      using v True days_in_month_bounds [of "year d" "month d - 1"]
      by (simp add: prev valid_date_def)
    moreover have "toordinal previous = toordinal d - 1"
      using d1 step by (simp add: prev toordinal_def)
    ultimately show ?thesis by simp
  next
    case False
    with v have m1: "month d = 1"
      by (simp add: valid_date_def)
    from p d1 m1 have y: "1 < year d"
      by (simp add: minus_one_day_def split: if_splits)
    with p d1 m1 have prev: "previous = d\<lparr>year := year d - 1, month := 12, day := 31\<rparr>"
      by (simp add: minus_one_day_def)
    have "days_before_year (year d - 1 + 1) =
        days_before_year (year d - 1) + 365 + (if is_leap (year d - 1) then 1 else 0)"
      by (rule days_before_year_step)
    then have step: "days_before_year (year d) =
        days_before_year (year d - 1) + 365 + (if is_leap (year d - 1) then 1 else 0)"
      by simp
    have last: "days_before_month (year d - 1) 12 + 31 =
        365 + (if is_leap (year d - 1) then 1 else 0)"
      using days_before_month_last [of "year d - 1"] by (simp add: days_in_month_def)
    have first: "days_before_month (year d) 1 = 0"
      by (simp add: days_before_month_def)
    have "valid_date previous"
      using v y by (simp add: prev valid_date_def days_in_month_def)
    moreover have "toordinal previous = toordinal d - 1"
      using d1 m1 step last first by (simp add: prev toordinal_def)
    ultimately show ?thesis by simp
  qed
qed

lemma minus_one_day_overflow:
  assumes v: "valid_date d" and p: "minus_one_day d = Inl e"
  shows "e = OverflowError \<and> toordinal d = 1"
proof -
  from p have "\<not> 1 < day d" and "\<not> 1 < month d" and "\<not> 1 < year d" and e: "e = OverflowError"
    by (simp_all add: minus_one_day_def split: if_splits)
  with v have "day d = 1" and "month d = 1" and "year d = 1"
    by (simp_all add: valid_date_def)
  then have "toordinal d = 1"
    by (simp add: toordinal_def days_before_year_def days_before_month_def)
  with e show ?thesis by simp
qed


lemma days_before_year_mono: "y1 \<le> y2 \<Longrightarrow> days_before_year y1 \<le> days_before_year y2"
proof (induction y2 rule: int_ge_induct)
  case base
  show ?case by simp
next
  case (step i)
  have "days_before_year i \<le> days_before_year (i + 1)"
    by (simp add: days_before_year_step)
  with step.IH show ?case by (rule order_trans)
qed

lemma days_before_month_bounds:
  assumes "1 \<le> m" and "m \<le> 12"
  shows "0 \<le> days_before_month y m \<and>
         days_before_month y m + days_in_month y m \<le> 365 + (if is_leap y then 1 else 0)"
proof -
  from assms have "m = 1 \<or> m = 2 \<or> m = 3 \<or> m = 4 \<or> m = 5 \<or> m = 6 \<or> m = 7 \<or> m = 8 \<or>
      m = 9 \<or> m = 10 \<or> m = 11 \<or> m = 12"
    by (rule month_cases)
  then show ?thesis
    by (elim disjE) (simp_all add: days_before_month_def days_in_month_def)
qed

lemma days_before_month_mono:
  assumes "1 \<le> m1" and "m1 < m2" and "m2 \<le> 12"
  shows "days_before_month y m1 + days_in_month y m1 \<le> days_before_month y m2"
proof -
  from assms(2) have "m1 + 1 \<le> m2" by simp
  then have "m2 \<le> 12 \<longrightarrow> days_before_month y m1 + days_in_month y m1 \<le> days_before_month y m2"
  proof (induction m2 rule: int_ge_induct)
    case base
    show ?case
    proof
      assume "m1 + 1 \<le> 12"
      with assms(1) have "days_before_month y (m1 + 1) =
          days_before_month y m1 + days_in_month y m1"
        by (intro days_before_month_step) simp_all
      then show "days_before_month y m1 + days_in_month y m1 \<le> days_before_month y (m1 + 1)"
        by simp
    qed
  next
    case (step i)
    show ?case
    proof
      assume le: "i + 1 \<le> 12"
      with step.IH have "days_before_month y m1 + days_in_month y m1 \<le> days_before_month y i"
        by simp
      moreover from le step.hyps assms(1) have "days_before_month y (i + 1) =
          days_before_month y i + days_in_month y i"
        by (intro days_before_month_step) simp_all
      moreover have "0 \<le> days_in_month y i"
        using days_in_month_bounds [of y i] by simp
      ultimately show "days_before_month y m1 + days_in_month y m1 \<le> days_before_month y (i + 1)"
        by simp
    qed
  qed
  with assms(3) show ?thesis by simp
qed

lemma toordinal_in_year:
  assumes "valid_date d"
  shows "days_before_year (year d) < toordinal d \<and> toordinal d \<le> days_before_year (year d + 1)"
proof -
  from assms have m: "1 \<le> month d" "month d \<le> 12"
    and dd: "1 \<le> day d" "day d \<le> days_in_month (year d) (month d)"
    by (simp_all add: valid_date_def)
  from m have b: "0 \<le> days_before_month (year d) (month d) \<and>
      days_before_month (year d) (month d) + days_in_month (year d) (month d)
        \<le> 365 + (if is_leap (year d) then 1 else 0)"
    by (rule days_before_month_bounds)
  have "days_before_year (year d) < toordinal d"
    using b dd by (simp add: toordinal_def)
  moreover have "toordinal d \<le> days_before_year (year d + 1)"
    unfolding days_before_year_step toordinal_def using b dd by simp
  ultimately show ?thesis by simp
qed

lemma toordinal_year_less:
  assumes a: "valid_date a" and b: "valid_date b" and y: "year a < year b"
  shows "toordinal a < toordinal b"
proof -
  have "toordinal a \<le> days_before_year (year a + 1)"
    using toordinal_in_year [OF a] by simp
  also have "days_before_year (year a + 1) \<le> days_before_year (year b)"
    using y by (intro days_before_year_mono) simp
  also have "days_before_year (year b) < toordinal b"
    using toordinal_in_year [OF b] by simp
  finally show ?thesis .
qed

lemma toordinal_month_less:
  assumes a: "valid_date a" and b: "valid_date b" and y: "year a = year b"
    and m: "month a < month b"
  shows "toordinal a < toordinal b"
proof -
  from a have ma: "1 \<le> month a" and da: "day a \<le> days_in_month (year a) (month a)"
    by (simp_all add: valid_date_def)
  from b have mb: "month b \<le> 12" and db: "1 \<le> day b"
    by (simp_all add: valid_date_def)
  from ma m mb have "days_before_month (year a) (month a) + days_in_month (year a) (month a)
      \<le> days_before_month (year a) (month b)"
    by (rule days_before_month_mono)
  with da db show ?thesis
    by (simp add: toordinal_def y)
qed

lemma toordinal_inj:
  assumes a: "valid_date a" and b: "valid_date b" and eq: "toordinal a = toordinal b"
  shows "a = b"
proof -
  have y: "year a = year b"
  proof (rule ccontr)
    assume "year a \<noteq> year b"
    then have "year a < year b \<or> year b < year a" by auto
    then have "toordinal a \<noteq> toordinal b"
      using toordinal_year_less [OF a b] toordinal_year_less [OF b a] by auto
    with eq show False by contradiction
  qed
  have m: "month a = month b"
  proof (rule ccontr)
    assume "month a \<noteq> month b"
    then have "month a < month b \<or> month b < month a" by auto
    then have "toordinal a \<noteq> toordinal b"
      using toordinal_month_less [OF a b y] toordinal_month_less [OF b a y [symmetric]] by auto
    with eq show False by contradiction
  qed
  from eq y m have "day a = day b"
    by (simp add: toordinal_def)
  with y m show ?thesis by simp
qed

subsection \<open>The streak\<close>

text \<open>
  What the loop of \<open>get_streak\<close> has established when it ends, started on a valid
  date with any count so far.
\<close>

lemma toordinal_positive:
  assumes "valid_date d"
  shows "1 \<le> toordinal d"
proof -
  from assms have "1 \<le> year d"
    by (simp add: valid_date_def)
  then have "days_before_year 1 \<le> days_before_year (year d)"
    by (rule days_before_year_mono)
  moreover have "days_before_year 1 = 0"
    by (simp add: days_before_year_def)
  moreover have "days_before_year (year d) < toordinal d"
    using toordinal_in_year [OF assms] by simp
  ultimately show ?thesis by simp
qed

lemma streak_loop_counts:
  assumes "valid_date current_day"
  shows "case streak_loop completed current_day streak of
           Inr r \<Rightarrow>
             streak \<le> r \<and> int (r - streak) < toordinal current_day \<and>
             (\<forall>j<r - streak. \<exists>d\<in>set completed. toordinal d = toordinal current_day - int j) \<and>
             (\<forall>d\<in>set completed.
                valid_date d \<longrightarrow> toordinal d \<noteq> toordinal current_day - int (r - streak))
         | Inl e \<Rightarrow>
             e = OverflowError \<and>
             (\<forall>n. 1 \<le> n \<and> n \<le> toordinal current_day
                \<longrightarrow> (\<exists>d\<in>set completed. toordinal d = n))"
  using assms
proof (induction completed current_day streak rule: streak_loop.induct)
  case (1 completed current_day streak)
  note v = \<open>valid_date current_day\<close>
  show ?case
  proof (cases "current_day \<in> set completed")
    case False
    then have res: "streak_loop completed current_day streak = Inr streak"
      by (subst streak_loop.simps) simp
    have "toordinal d \<noteq> toordinal current_day" if "d \<in> set completed" "valid_date d" for d
    proof
      assume "toordinal d = toordinal current_day"
      with that(2) v have "d = current_day" by (rule toordinal_inj)
      with that(1) False show False by simp
    qed
    then show ?thesis
      unfolding res using toordinal_positive [OF v] by simp
  next
    case True
    show ?thesis
    proof (cases "minus_one_day current_day")
      case (Inl e)
      with True have res: "streak_loop completed current_day streak = Inl e"
        by (subst streak_loop.simps) simp
      from v Inl have e: "e = OverflowError \<and> toordinal current_day = 1"
        by (rule minus_one_day_overflow)
      have "\<exists>d\<in>set completed. toordinal d = n" if "1 \<le> n \<and> n \<le> toordinal current_day" for n
      proof -
        from that e have "toordinal current_day = n" by simp
        with True show ?thesis by blast
      qed
      with e show ?thesis
        unfolding res by simp
    next
      case (Inr previous)
      with True have res: "streak_loop completed current_day streak =
          streak_loop completed previous (Suc streak)"
        by (subst streak_loop.simps) simp
      from v Inr have p: "valid_date previous \<and> toordinal previous = toordinal current_day - 1"
        by (rule minus_one_day_calendar)
      then have vp: "valid_date previous" and op: "toordinal previous = toordinal current_day - 1"
        by simp_all
      note ih = "1.IH" [OF True Inr vp]
      show ?thesis
      proof (cases "streak_loop completed previous (Suc streak)")
        case (Inl e)
        have e: "e = OverflowError"
          and below: "\<forall>n. 1 \<le> n \<and> n \<le> toordinal previous \<longrightarrow> (\<exists>d\<in>set completed. toordinal d = n)"
          using ih unfolding Inl by simp_all
        have "\<exists>d\<in>set completed. toordinal d = n" if n: "1 \<le> n \<and> n \<le> toordinal current_day" for n
        proof (cases "n = toordinal current_day")
          case True
          with \<open>current_day \<in> set completed\<close> show ?thesis by blast
        next
          case False
          with n op have "1 \<le> n \<and> n \<le> toordinal previous" by simp
          with below show ?thesis by blast
        qed
        with e show ?thesis
          unfolding res Inl by simp
      next
        case (Inr r)
        have "Suc streak \<le> r \<and> int (r - Suc streak) < toordinal previous \<and>
            (\<forall>j<r - Suc streak. \<exists>d\<in>set completed. toordinal d = toordinal previous - int j) \<and>
            (\<forall>d\<in>set completed.
                valid_date d \<longrightarrow> toordinal d \<noteq> toordinal previous - int (r - Suc streak))"
          using ih unfolding Inr by (simp only: sum.case, blast)
        then have le: "Suc streak \<le> r"
          and room: "int (r - Suc streak) < toordinal previous"
          and run: "\<forall>j<r - Suc streak. \<exists>d\<in>set completed. toordinal d = toordinal previous - int j"
          and stop: "\<forall>d\<in>set completed.
              valid_date d \<longrightarrow> toordinal d \<noteq> toordinal previous - int (r - Suc streak)"
          by blast+
        from le have k: "r - streak = Suc (r - Suc streak)" by simp
        have "\<exists>d\<in>set completed. toordinal d = toordinal current_day - int j"
          if j: "j < r - streak" for j
        proof (cases j)
          case 0
          with \<open>current_day \<in> set completed\<close> show ?thesis by auto
        next
          case (Suc j')
          with j k have "j' < r - Suc streak" by simp
          with run obtain d where d: "d \<in> set completed"
            and od: "toordinal d = toordinal previous - int j'"
            by blast
          from od op Suc have "toordinal d = toordinal current_day - int j"
            by simp
          with d show ?thesis by blast
        qed
        moreover have "toordinal d \<noteq> toordinal current_day - int (r - streak)"
          if "d \<in> set completed" "valid_date d" for d
        proof -
          from that stop have "toordinal d \<noteq> toordinal previous - int (r - Suc streak)"
            by blast
          then show ?thesis
            unfolding k op by simp
        qed
        moreover have "int (r - streak) < toordinal current_day"
          using room unfolding k op by simp
        ultimately show ?thesis
          unfolding res Inr using le by simp
      qed
    qed
  qed
qed


text \<open>
  C2, as the code has it. Days are counted by their ordinal, so that today - j is the
  j-th calendar day before today, across the ends of months and years. When some day
  from 0001-01-01, the first day of the date type, through today is not among the
  completion dates, \<open>get_streak\<close> returns a count \<open>k\<close>: each of the days today,
  today - 1, ..., today - (k - 1) is among the completion dates and the day today - k is
  not, so \<open>k\<close> is the number of consecutive days, walking backward from today, up to the
  first missing day. If today is not among the completion dates the result is 0, and so
  it is for the empty list. When every day from 0001-01-01 through today is among the
  completion dates, \<open>get_streak\<close> raises \<^verbatim>\<open>OverflowError\<close>.
\<close>

theorem get_streak_counts:
  assumes "valid_date today" and "\<forall>d\<in>set (completed_dates habit). valid_date d"
  shows "((\<exists>n. 1 \<le> n \<and> n \<le> toordinal today \<and>
             (\<forall>d\<in>set (completed_dates habit). toordinal d \<noteq> n)) \<longrightarrow>
            (\<exists>k. get_streak today habit = Inr k \<and> int k < toordinal today \<and>
                 (\<forall>j<k. \<exists>d\<in>set (completed_dates habit).
                           toordinal d = toordinal today - int j) \<and>
                 (\<forall>d\<in>set (completed_dates habit). toordinal d \<noteq> toordinal today - int k))) \<and>
         ((\<forall>n. 1 \<le> n \<and> n \<le> toordinal today \<longrightarrow>
               (\<exists>d\<in>set (completed_dates habit). toordinal d = n)) \<longrightarrow>
            get_streak today habit = Inl OverflowError) \<and>
         (today \<notin> set (completed_dates habit) \<longrightarrow> get_streak today habit = Inr 0) \<and>
         (completed_dates habit = [] \<longrightarrow> get_streak today habit = Inr 0)"
proof (intro conjI impI)
  note loop = streak_loop_counts [OF assms(1), of "completed_dates habit" 0]
  assume "\<exists>n. 1 \<le> n \<and> n \<le> toordinal today \<and>
      (\<forall>d\<in>set (completed_dates habit). toordinal d \<noteq> n)"
  then obtain n where n: "1 \<le> n \<and> n \<le> toordinal today"
    and missing: "\<forall>d\<in>set (completed_dates habit). toordinal d \<noteq> n"
    by blast
  show "\<exists>k. get_streak today habit = Inr k \<and> int k < toordinal today \<and>
           (\<forall>j<k. \<exists>d\<in>set (completed_dates habit). toordinal d = toordinal today - int j) \<and>
           (\<forall>d\<in>set (completed_dates habit). toordinal d \<noteq> toordinal today - int k)"
  proof (cases "streak_loop (completed_dates habit) today 0")
    case (Inl e)
    with loop have "\<forall>n. 1 \<le> n \<and> n \<le> toordinal today
        \<longrightarrow> (\<exists>d\<in>set (completed_dates habit). toordinal d = n)"
      by simp
    with n missing show ?thesis by blast
  next
    case (Inr k)
    with loop assms(2) show ?thesis
      by (auto simp: get_streak_def)
  qed
next
  note loop = streak_loop_counts [OF assms(1), of "completed_dates habit" 0]
  assume all: "\<forall>n. 1 \<le> n \<and> n \<le> toordinal today \<longrightarrow>
      (\<exists>d\<in>set (completed_dates habit). toordinal d = n)"
  show "get_streak today habit = Inl OverflowError"
  proof (cases "streak_loop (completed_dates habit) today 0")
    case (Inl e)
    with loop show ?thesis
      by (simp add: get_streak_def)
  next
    case (Inr k)
    with loop assms(2) have room: "int k < toordinal today"
      and stop: "\<forall>d\<in>set (completed_dates habit). toordinal d \<noteq> toordinal today - int k"
      by auto
    from room have "1 \<le> toordinal today - int k \<and> toordinal today - int k \<le> toordinal today"
      by simp
    with all obtain d where "d \<in> set (completed_dates habit)"
      and "toordinal d = toordinal today - int k"
      by blast
    with stop show ?thesis by blast
  qed
next
  assume "today \<notin> set (completed_dates habit)"
  then show "get_streak today habit = Inr 0"
    unfolding get_streak_def by (subst streak_loop.simps) simp
next
  assume "completed_dates habit = []"
  then show "get_streak today habit = Inr 0"
    unfolding get_streak_def by (subst streak_loop.simps) simp
qed

theorem get_streak_counts_witness:
  "get_streak \<lparr>year = 2024, month = 3, day = 1\<rparr>
     \<lparr>h_id = 1, h_name = lit ''run'', h_created_on = \<lparr>year = 2024, month = 2, day = 1\<rparr>,
      completed_dates =
        [\<lparr>year = 2024, month = 2, day = 28\<rparr>, \<lparr>year = 2024, month = 2, day = 29\<rparr>,
         \<lparr>year = 2024, month = 3, day = 1\<rparr>]\<rparr> = Inr 3 \<and>
   get_streak \<lparr>year = 2026, month = 1, day = 1\<rparr>
     \<lparr>h_id = 1, h_name = lit ''run'', h_created_on = \<lparr>year = 2025, month = 2, day = 1\<rparr>,
      completed_dates =
        [\<lparr>year = 2025, month = 12, day = 30\<rparr>, \<lparr>year = 2025, month = 12, day = 31\<rparr>]\<rparr> = Inr 0 \<and>
   toordinal \<lparr>year = 2024, month = 2, day = 28\<rparr> = toordinal \<lparr>year = 2024, month = 3, day = 1\<rparr> - 2 \<and>
   get_streak \<lparr>year = 1, month = 1, day = 2\<rparr>
     \<lparr>h_id = 1, h_name = lit ''run'', h_created_on = \<lparr>year = 1, month = 1, day = 1\<rparr>,
      completed_dates =
        [\<lparr>year = 1, month = 1, day = 1\<rparr>, \<lparr>year = 1, month = 1, day = 2\<rparr>]\<rparr>
     = Inl OverflowError"
proof -
  let ?F = "\<lparr>year = 1, month = 1, day = 2\<rparr>"
  let ?E = "\<lparr>h_id = 1, h_name = lit ''run'', h_created_on = \<lparr>year = 1, month = 1, day = 1\<rparr>,
      completed_dates =
        [\<lparr>year = 1, month = 1, day = 1\<rparr>, \<lparr>year = 1, month = 1, day = 2\<rparr>]\<rparr>"
  have u: "valid_date ?F" "\<forall>d\<in>set (completed_dates ?E). valid_date d"
    by (simp_all add: valid_date_def days_in_month_def is_leap_def)
  have o1: "toordinal \<lparr>year = 1, month = 1, day = 1\<rparr> = 1"
    and o2: "toordinal ?F = 2"
    by (simp_all add: toordinal_def days_before_year_def days_before_month_def)
  have "\<exists>d\<in>set (completed_dates ?E). toordinal d = n" if "1 \<le> n \<and> n \<le> toordinal ?F" for n
  proof -
    from that o2 have "n = 1 \<or> n = 2" by arith
    then show ?thesis
      using o1 o2 by auto
  qed
  then have over: "get_streak ?F ?E = Inl OverflowError"
    using get_streak_counts [OF u] by blast
  let ?T = "\<lparr>year = 2024, month = 3, day = 1\<rparr>"
  let ?H = "\<lparr>h_id = 1, h_name = lit ''run'', h_created_on = \<lparr>year = 2024, month = 2, day = 1\<rparr>,
      completed_dates =
        [\<lparr>year = 2024, month = 2, day = 28\<rparr>, \<lparr>year = 2024, month = 2, day = 29\<rparr>,
         \<lparr>year = 2024, month = 3, day = 1\<rparr>]\<rparr>"
  let ?U = "\<lparr>year = 2026, month = 1, day = 1\<rparr>"
  let ?G = "\<lparr>h_id = 1, h_name = lit ''run'', h_created_on = \<lparr>year = 2025, month = 2, day = 1\<rparr>,
      completed_dates =
        [\<lparr>year = 2025, month = 12, day = 30\<rparr>, \<lparr>year = 2025, month = 12, day = 31\<rparr>]\<rparr>"
  have v: "valid_date ?T" "\<forall>d\<in>set (completed_dates ?H). valid_date d"
    by (simp_all add: valid_date_def days_in_month_def is_leap_def)
  have w: "valid_date ?U" "\<forall>d\<in>set (completed_dates ?G). valid_date d"
    by (simp_all add: valid_date_def days_in_month_def is_leap_def)
  have 3: "get_streak ?T ?H = Inr 3"
    by (simp add: get_streak_def streak_loop.simps minus_one_day_def days_in_month_def is_leap_def)
  have o: "toordinal \<lparr>year = 2024, month = 2, day = 28\<rparr> = toordinal ?T - 2"
    by (simp add: toordinal_def days_before_year_def days_before_month_def is_leap_def)
  have "get_streak ?U ?G = Inr 0"
    using get_streak_counts [OF w] by simp
  moreover have "toordinal \<lparr>year = 2023, month = 1, day = 1\<rparr> \<le> toordinal ?T"
    by (simp add: toordinal_def days_before_year_def days_before_month_def is_leap_def)
  then have "\<exists>n. 1 \<le> n \<and> n \<le> toordinal ?T \<and>
      (\<forall>d\<in>set (completed_dates ?H). toordinal d \<noteq> n)"
    by (intro exI [of _ "toordinal \<lparr>year = 2023, month = 1, day = 1\<rparr>"])
      (simp add: toordinal_def days_before_year_def days_before_month_def is_leap_def)
  then have "\<exists>k. get_streak ?T ?H = Inr k \<and> int k < toordinal ?T"
    using get_streak_counts [OF v] by blast
  ultimately show ?thesis
    using 3 o over by simp
qed

text \<open>
  On 0001-01-01, with that day completed, the walk has no day to step back to: the
  subtraction raises \<^verbatim>\<open>OverflowError\<close> and no count is returned.
\<close>

theorem get_streak_first_day_counterexample:
  "get_streak \<lparr>year = 1, month = 1, day = 1\<rparr>
     \<lparr>h_id = 1, h_name = lit ''run'', h_created_on = \<lparr>year = 1, month = 1, day = 1\<rparr>,
      completed_dates = [\<lparr>year = 1, month = 1, day = 1\<rparr>]\<rparr> = Inl OverflowError"
  by (simp add: get_streak_def streak_loop.simps minus_one_day_def)

end
